(* ===== verification/Tassh_Prelude.thy ===== *)
theory Tassh_Prelude
  imports Main "HOL-Library.Word" "HOL-Library.AList" "HOL-Library.Multiset"
begin

text \<open>
  Shared vocabulary of the development: the machine integers and byte strings of the
  program, the result type of its fallible functions, the fact collections that the component
  theories fill and use, and generic lemmas on lists, association lists and multisets that
  several components need.

  Conventions. A Rust \<open>Result<T, E>\<close> is the sum \<open>'e + 'a\<close> with \<open>Inl\<close> for
  \<open>Err\<close> and \<open>Inr\<close> for \<open>Ok\<close>. A Rust \<open>String\<close> or \<open>&str\<close> is the
  list of its UTF-8 bytes, as a HOL \<open>string\<close>: lengths, slices and index positions are
  byte positions, as they are in Rust. A \<open>usize\<close> that only counts is a \<open>nat\<close>.
\<close>

type_synonym byte = "8 word"
type_synonym bytes = "byte list"
type_synonym u32 = "32 word"
type_synonym hostname = string
type_synonym pid = u32

named_theorems codec_simps \<open>byte-level facts about the wire format\<close>
named_theorems reg_simps \<open>lookups after registry updates\<close>
named_theorems handler_defs \<open>the registry transformers of the daemon's critical sections\<close>
named_theorems str_simps \<open>facts about the string functions of the standard library\<close>

section \<open>Results\<close>

text \<open>The \<open>?\<close> operator and \<open>map_err\<close> of the source.\<close>

fun bind_result :: "'e + 'a \<Rightarrow> ('a \<Rightarrow> 'e + 'b) \<Rightarrow> 'e + 'b" where
  "bind_result (Inl e) k = Inl e"
| "bind_result (Inr x) k = k x"

fun map_err :: "('e \<Rightarrow> 'f) \<Rightarrow> 'e + 'a \<Rightarrow> 'f + 'a" where
  "map_err g (Inl e) = Inl (g e)"
| "map_err g (Inr x) = Inr x"

lemma bind_result_Inr:
  "bind_result m k = Inr y \<longleftrightarrow> (\<exists>x. m = Inr x \<and> k x = Inr y)"
  by (cases m) auto

lemma map_err_Inr [simp]: "map_err g m = Inr y \<longleftrightarrow> m = Inr y"
  by (cases m) auto

section \<open>Lists and multisets\<close>

lemma take_append_exact [simp]: "length xs = n \<Longrightarrow> take n (xs @ ys) = xs"
  by simp

lemma count_le_one_diff:
  "count M x \<le> 1 \<Longrightarrow> x \<notin># M - {#x#}"
  by (auto simp: in_diff_count not_in_iff)

lemma set_map_filter_Some: "set (List.map_filter f xs) = {y. \<exists>x \<in> set xs. f x = Some y}"
  by (induction xs) (auto split: option.splits)

lemma map_map_filter_key:
  assumes "\<And>x y. f x = Some y \<Longrightarrow> g y = k x"
  shows "map g (List.map_filter f xs) = map k (filter (\<lambda>x. f x \<noteq> None) xs)"
  by (induction xs) (auto simp: assms split: option.splits)

section \<open>Association lists as maps\<close>

lemma map_of_map_snd_key:
  "map_of (map (\<lambda>(k, v). (k, if k = a then f v else v)) xs) b =
     (if b = a then map_option f (map_of xs b) else map_of xs b)"
  by (induction xs) auto

lemma map_fst_map_snd_key [simp]:
  "map fst (map (\<lambda>(k, v). (k, g k v)) xs) = map fst xs"
  by (induction xs) auto

lemma mem_map_of_distinct:
  "distinct (map fst xs) \<Longrightarrow> (k, v) \<in> set xs \<longleftrightarrow> map_of xs k = Some v"
  by (auto simp: map_of_eq_Some_iff)

end
