(* ===== verification/Ipc.thy ===== *)
theory Ipc
  imports Tassh_Prelude
begin

text \<open>
  The messages of the daemon's Unix socket (\<^verbatim>\<open>src/src/ipc.rs\<close>) and what
  \<open>tassh status\<close> prints for a peer (\<^verbatim>\<open>src/src/main.rs\<close>). The JSON encoding of
  the messages is serde's, so it is a parameter wherever a line of the socket is read.
\<close>

datatype IpcMessage =
    Connect hostname "16 word" pid
  | Disconnect hostname pid
  | StatusRequest
  | InjectFrame bytes

record PeerInfo =
  pi_hostname :: hostname
  pi_connected :: bool
  pi_no_daemon :: bool
  pi_session_count :: nat

record StatusResponse =
  resp_peers :: "PeerInfo list"

text \<open>The status word that \<open>run_status\<close> prints.\<close>

datatype peer_status = Syncing | NoDaemon | Probing

definition status_of :: "PeerInfo \<Rightarrow> peer_status" where
  "status_of i =
     (if pi_connected i then Syncing else if pi_no_daemon i then NoDaemon else Probing)"

end
