(* ===== verification/Peer.thy ===== *)
theory Peer
  imports Ipc
begin

text \<open>
  The peer registry of \<^verbatim>\<open>src/src/peer.rs\<close>. The \<open>HashMap\<close> from host names to peer
  states is an association list with distinct keys: its order stands for the unspecified
  iteration order of the map, and no property depends on it. Mutation through
  \<open>&mut PeerState\<close> is \<open>modify\<close>. What the daemon relies on is the locale
  \<open>host_store\<close>, interpreted here on the registry's own operations.
\<close>

section \<open>Data\<close>

text \<open>
  A \<open>close_tx\<close> is the only sender of a close channel; it is represented by the number of the
  channel, and the channel is closed once no registry entry holds that number. Task handles are
  numbers too.
\<close>

type_synonym chan = nat

record PeerState =
  session_count :: nat
  inbound_connections :: nat
  connected :: bool
  connecting :: bool
  probe_failed :: bool
  watched_pids :: "pid set"
  pid_watcher_handles :: "nat list"
  close_tx :: "chan option"

type_synonym registry = "(hostname \<times> PeerState) list"

definition new_peer :: PeerState where
  "new_peer = \<lparr>session_count = 0, inbound_connections = 0, connected = False,
     connecting = False, probe_failed = False, watched_pids = {}, pid_watcher_handles = [],
     close_tx = None\<rparr>"

section \<open>Operations\<close>

definition new_registry :: registry where
  "new_registry = []"

definition get :: "registry \<Rightarrow> hostname \<Rightarrow> PeerState option" where
  "get r h = map_of r h"

definition get_or_create :: "hostname \<Rightarrow> registry \<Rightarrow> registry" where
  "get_or_create h r = (if get r h = None then r @ [(h, new_peer)] else r)"

definition modify :: "hostname \<Rightarrow> (PeerState \<Rightarrow> PeerState) \<Rightarrow> registry \<Rightarrow> registry" where
  "modify h f r = map (\<lambda>(k, p). (k, if k = h then f p else p)) r"

definition remove_peer :: "hostname \<Rightarrow> registry \<Rightarrow> PeerState option \<times> registry" where
  "remove_peer h r = (get r h, filter (\<lambda>(k, p). k \<noteq> h) r)"

definition peer_info :: "hostname \<Rightarrow> PeerState \<Rightarrow> PeerInfo option" where
  "peer_info h p =
     (let total_sessions = session_count p + inbound_connections p in
      if total_sessions = 0 then None
      else Some \<lparr>pi_hostname = h,
                 pi_connected = connected p \<or> inbound_connections p > 0,
                 pi_no_daemon = probe_failed p \<and> inbound_connections p = 0,
                 pi_session_count = total_sessions\<rparr>)"

definition list_peers :: "registry \<Rightarrow> PeerInfo list" where
  "list_peers r = List.map_filter (\<lambda>(h, p). peer_info h p) r"

definition hosts_with_sessions :: "registry \<Rightarrow> hostname list" where
  "hosts_with_sessions r = map fst (filter (\<lambda>(h, p). session_count p > 0) r)"

definition connected_hosts_without_sessions :: "registry \<Rightarrow> hostname list" where
  "connected_hosts_without_sessions r =
     map fst (filter (\<lambda>(h, p). connected p \<and> session_count p = 0) r)"

definition hostnames :: "registry \<Rightarrow> hostname list" where
  "hostnames r = map fst r"

definition wf_registry :: "registry \<Rightarrow> bool" where
  "wf_registry r \<longleftrightarrow> distinct (hostnames r)"

section \<open>The interface the daemon relies on\<close>

text \<open>
  A store of per-host states: a lookup, an update in place of one host's state, creation of a
  missing entry with a fresh state, and an enumeration of the hosts. The client lemmas carry a
  property of all entries over an update, whatever the store is made of.
\<close>

locale host_store =
  fixes look :: "'m \<Rightarrow> hostname \<Rightarrow> 's option"
    and upd :: "hostname \<Rightarrow> ('s \<Rightarrow> 's) \<Rightarrow> 'm \<Rightarrow> 'm"
    and ensure :: "hostname \<Rightarrow> 'm \<Rightarrow> 'm"
    and fresh :: 's
    and hosts :: "'m \<Rightarrow> hostname list"
  assumes look_upd: "look (upd h f m) k = (if k = h then map_option f (look m k) else look m k)"
    and look_ensure: "look (ensure h m) k =
      (if k = h \<and> look m k = None then Some fresh else look m k)"
    and hosts_look: "k \<in> set (hosts m) \<longleftrightarrow> look m k \<noteq> None"
    and hosts_upd: "hosts (upd h f m) = hosts m"
    and distinct_ensure: "distinct (hosts m) \<Longrightarrow> distinct (hosts (ensure h m))"
begin

lemma look_upd_ensure:
  "look (upd h f (ensure h m)) k =
     (if k = h then Some (f (case look m k of None \<Rightarrow> fresh | Some s \<Rightarrow> s)) else look m k)"
  by (simp add: look_upd look_ensure split: option.splits)

lemma entries_upd:
  assumes "\<And>k s. look m k = Some s \<Longrightarrow> k \<noteq> h \<Longrightarrow> Q k s"
    and "\<And>s. look m h = Some s \<Longrightarrow> Q h (f s)"
    and "look (upd h f m) k = Some s"
  shows "Q k s"
  using assms by (auto simp: look_upd split: if_splits)

lemma entries_upd_ensure:
  assumes "\<And>k s. look m k = Some s \<Longrightarrow> k \<noteq> h \<Longrightarrow> Q k s"
    and "Q h (f (case look m h of None \<Rightarrow> fresh | Some s \<Rightarrow> s))"
    and "look (upd h f (ensure h m)) k = Some s"
  shows "Q k s"
  using assms by (auto simp: look_upd_ensure split: if_splits)

lemma known_stays_known:
  "look m k \<noteq> None \<Longrightarrow> look (upd h f m) k \<noteq> None \<and> look (ensure h m) k \<noteq> None"
  by (auto simp: look_upd look_ensure)

lemma distinct_upd_ensure: "distinct (hosts m) \<Longrightarrow> distinct (hosts (upd h f (ensure h m)))"
  by (simp add: hosts_upd distinct_ensure)

end

interpretation reg: host_store get modify get_or_create new_peer hostnames
proof
  fix h k :: hostname and f :: "PeerState \<Rightarrow> PeerState" and m :: registry
  show "get (modify h f m) k = (if k = h then map_option f (get m k) else get m k)"
    by (simp add: get_def modify_def map_of_map_snd_key)
  show "get (get_or_create h m) k = (if k = h \<and> get m k = None then Some new_peer else get m k)"
    by (auto simp: get_def get_or_create_def map_add_def split: option.splits)
  show "k \<in> set (hostnames m) \<longleftrightarrow> get m k \<noteq> None"
    by (simp add: get_def hostnames_def map_of_eq_None_iff)
  show "hostnames (modify h f m) = hostnames m"
    by (auto simp: hostnames_def modify_def)
  show "distinct (hostnames m) \<Longrightarrow> distinct (hostnames (get_or_create h m))"
    by (auto simp: get_def hostnames_def get_or_create_def map_of_eq_None_iff)
qed

lemmas registry_lookups [reg_simps] = reg.look_upd reg.look_ensure reg.look_upd_ensure

lemma get_new_registry [reg_simps]: "get new_registry h = None"
  by (simp add: get_def new_registry_def)

lemma wf_new_registry: "wf_registry new_registry"
  by (simp add: wf_registry_def hostnames_def new_registry_def)

lemma wf_modify [reg_simps]: "wf_registry (modify h f r) \<longleftrightarrow> wf_registry r"
  by (simp add: wf_registry_def reg.hosts_upd)

lemma wf_get_or_create [intro]: "wf_registry r \<Longrightarrow> wf_registry (get_or_create h r)"
  by (simp add: wf_registry_def reg.distinct_ensure)

lemma get_mem: "wf_registry r \<Longrightarrow> (h, p) \<in> set r \<longleftrightarrow> get r h = Some p"
  unfolding wf_registry_def hostnames_def get_def by (rule mem_map_of_distinct)

lemma set_hosts_with_sessions:
  "wf_registry r \<Longrightarrow>
     set (hosts_with_sessions r) = {h. \<exists>p. get r h = Some p \<and> 0 < session_count p}"
  by (force simp: hosts_with_sessions_def get_mem)

lemma set_connected_hosts_without_sessions:
  "wf_registry r \<Longrightarrow> set (connected_hosts_without_sessions r)
     = {h. \<exists>p. get r h = Some p \<and> connected p \<and> session_count p = 0}"
  by (force simp: connected_hosts_without_sessions_def get_mem)

lemma set_list_peers:
  "wf_registry r \<Longrightarrow> set (list_peers r) = {i. \<exists>h p. get r h = Some p \<and> peer_info h p = Some i}"
  by (simp add: list_peers_def set_map_filter_Some Bex_def get_mem)

lemma remove_peer_get:
  "get (snd (remove_peer h r)) k = (if k = h then None else get r k)"
  by (induction r) (auto simp: remove_peer_def get_def)

section \<open>Properties\<close>

text \<open>
  The status list shows each known host at most once, and shows exactly the hosts with an
  outbound SSH session or an inbound connection, with the sum of both as the session count; a host
  is shown as syncing exactly if one of the two directions carries clipboard traffic, and as
  having no daemon only if the last probe failed and neither direction is connected.
\<close>

theorem status_list_exact:
  assumes "wf_registry r"
  shows "distinct (map pi_hostname (list_peers r))
    \<and> (\<forall>i. i \<in> set (list_peers r) \<longleftrightarrow>
        (\<exists>p. get r (pi_hostname i) = Some p
          \<and> pi_session_count i = session_count p + inbound_connections p
          \<and> pi_session_count i > 0
          \<and> pi_no_daemon i = (probe_failed p \<and> inbound_connections p = 0)
          \<and> pi_connected i = (connected p \<or> inbound_connections p > 0)
          \<and> (status_of i = Syncing \<longleftrightarrow> connected p \<or> inbound_connections p > 0)
          \<and> (status_of i = NoDaemon \<longleftrightarrow>
              probe_failed p \<and> inbound_connections p = 0 \<and> \<not> connected p)))"
proof
  have "map pi_hostname (list_peers r) = map fst (filter (\<lambda>x. (\<lambda>(h, p). peer_info h p) x \<noteq> None) r)"
    unfolding list_peers_def by (rule map_map_filter_key) (auto simp: peer_info_def Let_def split: if_splits)
  with assms show "distinct (map pi_hostname (list_peers r))"
    by (simp add: wf_registry_def hostnames_def distinct_map_filter)
next
  show "\<forall>i. i \<in> set (list_peers r) \<longleftrightarrow>
        (\<exists>p. get r (pi_hostname i) = Some p
          \<and> pi_session_count i = session_count p + inbound_connections p
          \<and> pi_session_count i > 0
          \<and> pi_no_daemon i = (probe_failed p \<and> inbound_connections p = 0)
          \<and> pi_connected i = (connected p \<or> inbound_connections p > 0)
          \<and> (status_of i = Syncing \<longleftrightarrow> connected p \<or> inbound_connections p > 0)
          \<and> (status_of i = NoDaemon \<longleftrightarrow>
              probe_failed p \<and> inbound_connections p = 0 \<and> \<not> connected p))"
    unfolding set_list_peers [OF assms]
    by (fastforce simp: peer_info_def status_of_def Let_def split: if_splits)
qed

end
