(* ===== verification/Handlers.thy ===== *)
theory Handlers
  imports Peer
begin

text \<open>
  The critical sections of \<^verbatim>\<open>src/src/daemon.rs\<close>: what each handler does to the peer
  registry between taking its lock and releasing it. A section that works on one
  \<open>&mut PeerState\<close> is a function on peer states (\<open>peer_\<dots>\<close>), lifted to the registry
  with the guard of the source. Between two sections other tasks may run; the theory
  \<open>Daemon\<close> puts them together.
\<close>

section \<open>SSH sessions\<close>

text \<open>
  \<open>handle_connect\<close>, first section: a process id that is already watched is a duplicate and
  ends the handler (\<open>None\<close>); otherwise the session is counted, and the flag tells whether a
  connection is needed.
\<close>

definition peer_register :: "pid \<Rightarrow> PeerState \<Rightarrow> PeerState" where
  "peer_register ssh_pid p =
     p\<lparr>session_count := session_count p + 1, watched_pids := insert ssh_pid (watched_pids p)\<rparr>"

definition connect_register :: "hostname \<Rightarrow> pid \<Rightarrow> registry \<Rightarrow> registry \<times> bool option" where
  "connect_register h ssh_pid r =
     (let r1 = get_or_create h r;
          p = (case get r1 h of Some p \<Rightarrow> p | None \<Rightarrow> new_peer)
      in if ssh_pid \<in> watched_pids p then (r1, None)
         else (modify h (peer_register ssh_pid) r1, Some (\<not> connected p)))"

text \<open>
  \<open>handle_connect\<close>, second section: the right to connect is claimed unless an attempt or a
  connection exists.
\<close>

definition connect_claim :: "hostname \<Rightarrow> registry \<Rightarrow> registry \<times> bool" where
  "connect_claim h r =
     (let r1 = get_or_create h r;
          p = (case get r1 h of Some p \<Rightarrow> p | None \<Rightarrow> new_peer)
      in if connecting p \<or> connected p then (r1, False)
         else (modify h (\<lambda>p. p\<lparr>connecting := True\<rparr>) r1, True))"

text \<open>The probe of a claimed host found no daemon.\<close>

definition probe_found_none :: "hostname \<Rightarrow> registry \<Rightarrow> registry" where
  "probe_found_none h r = modify h (\<lambda>p. p\<lparr>probe_failed := True, connecting := False\<rparr>) r"

text \<open>
  \<open>handle_pid_exit\<close>, also run by \<open>handle_disconnect\<close>: the count saturates at zero; with the
  last session the close sender is dropped and the stored watcher handles are drained and aborted.
\<close>

definition peer_exit :: "pid \<Rightarrow> PeerState \<Rightarrow> PeerState" where
  "peer_exit ssh_pid p =
     (let p1 = p\<lparr>watched_pids := watched_pids p - {ssh_pid},
                 session_count := session_count p - 1\<rparr>
      in if session_count p1 = 0
         then p1\<lparr>close_tx := None, connected := False, pid_watcher_handles := []\<rparr>
         else p1)"

definition handle_pid_exit :: "hostname \<Rightarrow> pid \<Rightarrow> registry \<Rightarrow> registry" where
  "handle_pid_exit h ssh_pid r = modify h (peer_exit ssh_pid) r"

definition handle_disconnect :: "hostname \<Rightarrow> pid \<Rightarrow> registry \<Rightarrow> registry" where
  "handle_disconnect h ssh_pid r = handle_pid_exit h ssh_pid r"

text \<open>The watcher handles that \<open>handle_pid_exit\<close> aborts.\<close>

definition aborted_handles :: "hostname \<Rightarrow> pid \<Rightarrow> registry \<Rightarrow> nat list" where
  "aborted_handles h ssh_pid r =
     (case get r h of
        None \<Rightarrow> []
      | Some p \<Rightarrow> if session_count p - 1 = 0 then pid_watcher_handles p else [])"

text \<open>
  Startup discovery, the section of one discovered host: the ids not yet watched are counted, in
  the order of the list, and the right to connect is claimed as in \<open>connect_claim\<close>. The
  result also holds the ids to watch and whether to connect.
\<close>

fun add_pids :: "pid list \<Rightarrow> PeerState \<Rightarrow> PeerState \<times> pid list" where
  "add_pids [] p = (p, [])"
| "add_pids (i # is) p =
     (if i \<in> watched_pids p then add_pids is p
      else let (p', new) = add_pids is (peer_register i p) in (p', i # new))"

definition discover_register ::
  "hostname \<Rightarrow> pid list \<Rightarrow> registry \<Rightarrow> registry \<times> pid list \<times> bool" where
  "discover_register h pids r =
     (let r1 = get_or_create h r;
          p = (case get r1 h of Some p \<Rightarrow> p | None \<Rightarrow> new_peer);
          (p1, new_pids) = add_pids pids p
      in if connecting p1 \<or> connected p1 then (modify h (\<lambda>_. p1) r1, new_pids, False)
         else (modify h (\<lambda>_. p1\<lparr>connecting := True\<rparr>) r1, new_pids, True))"

section \<open>The outbound connection\<close>

text \<open>
  \<open>start_peer_connection\<close> after a successful connect: the connection is kept, and its close
  sender stored, only if SSH sessions remain.
\<close>

definition peer_established :: "chan \<Rightarrow> PeerState \<Rightarrow> PeerState" where
  "peer_established ch p =
     (if session_count p = 0 then p\<lparr>connecting := False, close_tx := None\<rparr>
      else p\<lparr>connected := True, connecting := False, probe_failed := False, close_tx := Some ch\<rparr>)"

definition connection_established :: "hostname \<Rightarrow> chan \<Rightarrow> registry \<Rightarrow> registry \<times> bool" where
  "connection_established h ch r =
     (modify h (peer_established ch) r,
      case get r h of None \<Rightarrow> False | Some p \<Rightarrow> session_count p \<noteq> 0)"

definition connection_refused :: "hostname \<Rightarrow> registry \<Rightarrow> registry" where
  "connection_refused h r = modify h (\<lambda>p. p\<lparr>connecting := False\<rparr>) r"

text \<open>The end of a connection task.\<close>

definition connection_ended :: "hostname \<Rightarrow> registry \<Rightarrow> registry" where
  "connection_ended h r =
     modify h (\<lambda>p. p\<lparr>connected := False, connecting := False, close_tx := None\<rparr>) r"

section \<open>The liveness refresh\<close>

definition refresh_idle :: "hostname \<Rightarrow> registry \<Rightarrow> registry" where
  "refresh_idle h r =
     modify h (\<lambda>p. p\<lparr>close_tx := None, connected := False, connecting := False\<rparr>) r"

text \<open>
  Which host with sessions is probed: none that an attempt is in progress for, and a connected one
  only when the refresh was asked to check connected peers. The flag of the job is the
  connection state seen here, before the probe.
\<close>

definition refresh_candidate :: "bool \<Rightarrow> hostname \<Rightarrow> registry \<Rightarrow> bool option" where
  "refresh_candidate check_connected h r =
     (case get r h of
        None \<Rightarrow> None
      | Some p \<Rightarrow>
          if connecting p then None
          else if connected p \<and> \<not> check_connected then None
          else Some (connected p))"

text \<open>A reachable host that was not connected when it was scanned.\<close>

definition refresh_claim :: "hostname \<Rightarrow> registry \<Rightarrow> registry \<times> bool" where
  "refresh_claim h r =
     (case get r h of
        None \<Rightarrow> (r, False)
      | Some p \<Rightarrow>
          if connected p \<or> connecting p \<or> session_count p = 0 then (r, False)
          else (modify h (\<lambda>p. p\<lparr>connecting := True, probe_failed := False\<rparr>) r, True))"

text \<open>An unreachable host, with the connection state seen when it was scanned.\<close>

definition peer_unreachable :: "bool \<Rightarrow> PeerState \<Rightarrow> PeerState" where
  "peer_unreachable was_connected p =
     (let p1 = (if was_connected then p\<lparr>close_tx := None, connected := False\<rparr> else p)
      in p1\<lparr>connecting := False, probe_failed := True\<rparr>)"

definition refresh_unreachable :: "hostname \<Rightarrow> bool \<Rightarrow> registry \<Rightarrow> registry" where
  "refresh_unreachable h was_connected r = modify h (peer_unreachable was_connected) r"

section \<open>Inbound connections\<close>

definition inbound_opened :: "hostname \<Rightarrow> registry \<Rightarrow> registry" where
  "inbound_opened h r =
     modify h (\<lambda>p. p\<lparr>inbound_connections := inbound_connections p + 1, probe_failed := False\<rparr>)
       (get_or_create h r)"

definition inbound_closed :: "hostname \<Rightarrow> registry \<Rightarrow> registry" where
  "inbound_closed h r =
     modify h (\<lambda>p. p\<lparr>inbound_connections := inbound_connections p - 1\<rparr>) r"

lemmas handler_definitions [handler_defs] =
  connect_register_def connect_claim_def probe_found_none_def handle_pid_exit_def
  handle_disconnect_def discover_register_def connection_established_def connection_refused_def
  connection_ended_def refresh_idle_def refresh_claim_def refresh_unreachable_def
  inbound_opened_def inbound_closed_def

section \<open>The handlers as functions of the peer states\<close>

text \<open>
  A host without an entry behaves like one with a fresh entry: \<open>peer_at\<close> reads the registry
  that way, so that creating an entry is invisible and a handler changes one host at most.
\<close>

definition peer_at :: "registry \<Rightarrow> hostname \<Rightarrow> PeerState" where
  "peer_at r h = (case get r h of None \<Rightarrow> new_peer | Some p \<Rightarrow> p)"

lemma peer_at_get [reg_simps]: "get r h = Some p \<Longrightarrow> peer_at r h = p"
  by (simp add: peer_at_def)

lemma peer_at_unknown: "get r h = None \<Longrightarrow> peer_at r h = new_peer"
  by (simp add: peer_at_def)

lemma peer_at_new_registry [reg_simps]: "peer_at new_registry h = new_peer"
  by (simp add: peer_at_def get_new_registry)

lemma peer_at_create [reg_simps]: "peer_at (get_or_create h r) k = peer_at r k"
  by (auto simp add: peer_at_def reg.look_ensure split: option.splits)

lemma peer_at_modify [reg_simps]:
  "peer_at (modify h f r) k =
     (if k = h \<and> get r h \<noteq> None then f (peer_at r h) else peer_at r k)"
  by (auto simp: peer_at_def reg.look_upd split: option.splits)

lemma peer_at_modify_create [reg_simps]:
  "peer_at (modify h f (get_or_create h r)) k = (if k = h then f (peer_at r h) else peer_at r k)"
  by (auto simp: peer_at_def reg.look_upd_ensure split: option.splits)

lemma new_peer_sel [simp]:
  "session_count new_peer = 0" "inbound_connections new_peer = 0" "\<not> connected new_peer"
  "\<not> connecting new_peer" "\<not> probe_failed new_peer" "watched_pids new_peer = {}"
  "pid_watcher_handles new_peer = []" "close_tx new_peer = None"
  by (simp_all add: new_peer_def)

lemma entry_of_created:
  "(case get (get_or_create h r) h of Some p \<Rightarrow> p | None \<Rightarrow> new_peer) = peer_at r h"
  by (auto simp: peer_at_def reg.look_ensure split: option.splits)

lemma connect_register_at [reg_simps]:
  "peer_at (fst (connect_register h i r)) k =
     (if k = h \<and> i \<notin> watched_pids (peer_at r h) then peer_register i (peer_at r h)
      else peer_at r k)"
  "snd (connect_register h i r) =
     (if i \<in> watched_pids (peer_at r h) then None else Some (\<not> connected (peer_at r h)))"
  by (simp_all add: connect_register_def Let_def entry_of_created peer_at_create
      peer_at_modify_create)

lemma connect_claim_at [reg_simps]:
  "peer_at (fst (connect_claim h r)) k =
     (if k = h \<and> \<not> connecting (peer_at r h) \<and> \<not> connected (peer_at r h)
      then (peer_at r h)\<lparr>connecting := True\<rparr> else peer_at r k)"
  "snd (connect_claim h r) \<longleftrightarrow> \<not> connecting (peer_at r h) \<and> \<not> connected (peer_at r h)"
  by (auto simp: connect_claim_def Let_def entry_of_created peer_at_create peer_at_modify_create)

lemma refresh_claim_at [reg_simps]:
  "peer_at (fst (refresh_claim h r)) k =
     (if k = h \<and> \<not> connecting (peer_at r h) \<and> \<not> connected (peer_at r h)
         \<and> 0 < session_count (peer_at r h)
      then (peer_at r h)\<lparr>connecting := True, probe_failed := False\<rparr> else peer_at r k)"
  "snd (refresh_claim h r) \<longleftrightarrow> \<not> connecting (peer_at r h) \<and> \<not> connected (peer_at r h)
     \<and> 0 < session_count (peer_at r h)"
  by (auto simp: refresh_claim_def peer_at_modify peer_at_get peer_at_unknown
      split: option.splits)

lemma discover_register_at [reg_simps]:
  "peer_at (fst (discover_register h is r)) k =
     (if k = h then
        let p1 = fst (add_pids is (peer_at r h)) in
        if connecting p1 \<or> connected p1 then p1 else p1\<lparr>connecting := True\<rparr>
      else peer_at r k)"
  "fst (snd (discover_register h is r)) = snd (add_pids is (peer_at r h))"
  "snd (snd (discover_register h is r)) \<longleftrightarrow>
     \<not> connecting (fst (add_pids is (peer_at r h))) \<and> \<not> connected (fst (add_pids is (peer_at r h)))"
  by (auto simp: discover_register_def Let_def entry_of_created peer_at_modify_create
      split: prod.splits)

lemma connection_established_at [reg_simps]:
  "peer_at (fst (connection_established h c r)) k =
     (if k = h \<and> get r h \<noteq> None then peer_established c (peer_at r h) else peer_at r k)"
  "snd (connection_established h c r) \<longleftrightarrow> 0 < session_count (peer_at r h)"
  by (auto simp: connection_established_def peer_at_modify peer_at_get peer_at_unknown
      split: option.splits)

lemma wf_handlers [intro]:
  assumes "wf_registry r"
  shows "wf_registry (fst (connect_register h i r))" and "wf_registry (fst (connect_claim h r))"
    and "wf_registry (fst (refresh_claim h r))" and "wf_registry (fst (discover_register h is r))"
    and "wf_registry (fst (connection_established h c r))" and "wf_registry (inbound_opened h r)"
  using assms
  by (auto simp: handler_defs Let_def wf_modify wf_get_or_create split: option.splits prod.splits)

lemma handler_peer_at [reg_simps]:
  "peer_at (probe_found_none h r) k =
     (if k = h \<and> get r h \<noteq> None then (peer_at r h)\<lparr>probe_failed := True, connecting := False\<rparr>
      else peer_at r k)"
  "peer_at (connection_refused h r) k =
     (if k = h \<and> get r h \<noteq> None then (peer_at r h)\<lparr>connecting := False\<rparr> else peer_at r k)"
  "peer_at (connection_ended h r) k =
     (if k = h \<and> get r h \<noteq> None
      then (peer_at r h)\<lparr>connected := False, connecting := False, close_tx := None\<rparr>
      else peer_at r k)"
  "peer_at (refresh_idle h r) k =
     (if k = h \<and> get r h \<noteq> None
      then (peer_at r h)\<lparr>close_tx := None, connected := False, connecting := False\<rparr>
      else peer_at r k)"
  "peer_at (refresh_unreachable h was r) k =
     (if k = h \<and> get r h \<noteq> None then peer_unreachable was (peer_at r h) else peer_at r k)"
  "peer_at (handle_pid_exit h i r) k =
     (if k = h \<and> get r h \<noteq> None then peer_exit i (peer_at r h) else peer_at r k)"
  "peer_at (inbound_closed h r) k =
     (if k = h \<and> get r h \<noteq> None
      then (peer_at r h)\<lparr>inbound_connections := inbound_connections (peer_at r h) - 1\<rparr>
      else peer_at r k)"
  by (auto simp: probe_found_none_def connection_refused_def connection_ended_def
      refresh_idle_def refresh_unreachable_def handle_pid_exit_def inbound_closed_def
      peer_at_modify)

lemma inbound_opened_at [reg_simps]:
  "peer_at (inbound_opened h r) k =
     (if k = h then (peer_at r h)\<lparr>inbound_connections := inbound_connections (peer_at r h) + 1,
        probe_failed := False\<rparr> else peer_at r k)"
  by (simp only: inbound_opened_def peer_at_modify_create)

lemma wf_simple_handlers [intro]:
  "wf_registry r \<Longrightarrow> wf_registry (probe_found_none h r)"
  "wf_registry r \<Longrightarrow> wf_registry (connection_refused h r)"
  "wf_registry r \<Longrightarrow> wf_registry (connection_ended h r)"
  "wf_registry r \<Longrightarrow> wf_registry (refresh_idle h r)"
  "wf_registry r \<Longrightarrow> wf_registry (refresh_unreachable h was r)"
  "wf_registry r \<Longrightarrow> wf_registry (handle_pid_exit h i r)"
  "wf_registry r \<Longrightarrow> wf_registry (handle_disconnect h i r)"
  "wf_registry r \<Longrightarrow> wf_registry (inbound_closed h r)"
  by (simp_all add: probe_found_none_def connection_refused_def connection_ended_def
      refresh_idle_def refresh_unreachable_def handle_pid_exit_def handle_disconnect_def
      inbound_closed_def wf_modify)

lemma add_pids_Cons [simp]:
  "fst (add_pids (i # is) p) =
     (if i \<in> watched_pids p then fst (add_pids is p) else fst (add_pids is (peer_register i p)))"
  "snd (add_pids (i # is) p) =
     (if i \<in> watched_pids p then snd (add_pids is p)
      else i # snd (add_pids is (peer_register i p)))"
  by (simp_all add: case_prod_beta Let_def)

lemma peer_register_sel [simp]:
  "session_count (peer_register i p) = Suc (session_count p)"
  "watched_pids (peer_register i p) = insert i (watched_pids p)"
  "connected (peer_register i p) = connected p"
  "connecting (peer_register i p) = connecting p"
  "close_tx (peer_register i p) = close_tx p"
  "inbound_connections (peer_register i p) = inbound_connections p"
  "pid_watcher_handles (peer_register i p) = pid_watcher_handles p"
  "probe_failed (peer_register i p) = probe_failed p"
  by (simp_all add: peer_register_def)

declare add_pids.simps(2) [simp del]

lemma add_pids_frame [simp]:
  "connected (fst (add_pids is p)) = connected p"
  "connecting (fst (add_pids is p)) = connecting p"
  "close_tx (fst (add_pids is p)) = close_tx p"
  "inbound_connections (fst (add_pids is p)) = inbound_connections p"
  "pid_watcher_handles (fst (add_pids is p)) = pid_watcher_handles p"
  by (induction "is" arbitrary: p) simp_all

lemma watched_add_pids [simp]: "watched_pids (fst (add_pids is p)) = watched_pids p \<union> set is"
  by (induction "is" arbitrary: p) auto

lemma set_add_pids [simp]: "set (snd (add_pids is p)) = set is - watched_pids p"
  by (induction "is" arbitrary: p) auto

lemma distinct_add_pids [simp]: "distinct (snd (add_pids is p))"
  by (induction "is" arbitrary: p) auto

lemma session_count_add_pids [simp]:
  "session_count (fst (add_pids is p)) = session_count p + length (snd (add_pids is p))"
  by (induction "is" arbitrary: p) auto

lemma add_pids_card:
  "card (watched_pids p \<union> set is) = card (watched_pids p) + length (snd (add_pids is p))"
proof -
  have "card (watched_pids p \<union> set is) = card (watched_pids p) + card (set is - watched_pids p)"
    using card_Un_disjoint [of "watched_pids p" "set is - watched_pids p"]
    by (simp only: Un_Diff_cancel finite Diff_disjoint)
  moreover have "card (set is - watched_pids p) = length (snd (add_pids is p))"
    using distinct_card [OF distinct_add_pids [of "is" p]] by simp
  ultimately show ?thesis by simp
qed

end
