(* ===== verification/Daemon.thy ===== *)
theory Daemon
  imports Handlers
begin

text \<open>
  The concurrent core of \<^verbatim>\<open>src/src/daemon.rs\<close>: the tasks that share the peer
  registry, and the steps they take. A step is one critical section of one task (a
  \<open>Handlers\<close> function), together with the purely local code up to the next point where the
  task waits. What a task waits for (a process exit, a probe, a connect, data on a socket, the
  order in which a \<open>HashMap\<close> is walked) is chosen by the environment, so the steps are a
  relation; the event on a step says what happened. The executor may interleave the tasks in any
  way.
\<close>

section \<open>Tasks, events and state\<close>

text \<open>
  The program counter of a liveness refresh: hosts still to be cleaned up, then hosts still to be
  scanned with the probe jobs started so far (a host and the connection state seen for it); the
  jobs are joined once no host is left.
\<close>

datatype refresh_pc =
    CleanIdle "hostname list"
  | Scan "hostname list" "(hostname \<times> bool) list"

datatype task =
    Claiming hostname            \<comment> \<open>\<open>handle_connect\<close> between its two sections\<close>
  | Watching hostname pid        \<comment> \<open>a watcher of an SSH process\<close>
  | Discovering hostname "pid list"  \<comment> \<open>startup discovery of a host, before its section\<close>
  | Probe hostname               \<comment> \<open>a claimed host, waiting for \<open>probe_remote\<close>\<close>
  | Dial hostname                \<comment> \<open>\<open>start_peer_connection\<close>, waiting for its connect\<close>
  | Conn hostname chan           \<comment> \<open>a connection task in its \<open>select!\<close> loop\<close>
  | Closing hostname chan        \<comment> \<open>a connection task that left the loop\<close>
  | Inbound hostname             \<comment> \<open>the receive loop of an accepted connection\<close>
  | Refresh bool refresh_pc      \<comment> \<open>\<open>refresh_peer_liveness check_connected\<close>\<close>

text \<open>Why a connection task leaves its loop.\<close>

datatype conn_end = SendFailed | BusClosed | CloseSignal | RemoteEof | ReadError

datatype event =
    IpcConnect hostname pid
  | IpcDisconnect hostname pid
  | Claimed hostname
  | PidExited hostname pid
  | Discovered hostname "pid list"
  | DiscoverSection hostname "pid list"
  | Probed hostname bool
  | Dialed hostname bool
  | Forwarded hostname chan
  | ConnEnded hostname chan conn_end
  | CleanedUp hostname chan
  | InboundOpened hostname
  | InboundClosed hostname
  | RefreshStarted bool "hostname list"
  | RefreshCleaned bool hostname "hostname list"
  | RefreshListed bool "hostname list"
  | RefreshScanned bool hostname "hostname list" "(hostname \<times> bool) list"
  | RefreshJoined bool "(hostname \<times> bool) list" hostname bool bool
  | RefreshJobFailed bool "(hostname \<times> bool) list" hostname bool
  | RefreshDone bool "PeerInfo list"

record daemon =
  peers :: registry
  tasks :: "task multiset"
  next_chan :: chan

definition initial :: daemon where
  "initial = \<lparr>peers = new_registry, tasks = {#}, next_chan = 0\<rparr>"

text \<open>A task waits at a new point.\<close>

definition move :: "task \<Rightarrow> task multiset \<Rightarrow> daemon \<Rightarrow> daemon" where
  "move t ts s = s\<lparr>tasks := tasks s - {#t#} + ts\<rparr>"

definition spawn :: "task multiset \<Rightarrow> daemon \<Rightarrow> daemon" where
  "spawn ts s = s\<lparr>tasks := tasks s + ts\<rparr>"

text \<open>The close channel \<open>c\<close> of host \<open>h\<close> still has its sender.\<close>

definition chan_open :: "daemon \<Rightarrow> hostname \<Rightarrow> chan \<Rightarrow> bool" where
  "chan_open s h c \<longleftrightarrow> close_tx (peer_at (peers s) h) = Some c"

section \<open>The steps of the tasks\<close>

text \<open>The IPC handler of a \<open>Connect\<close> message, up to its second section.\<close>

definition do_connect :: "hostname \<Rightarrow> pid \<Rightarrow> daemon \<Rightarrow> daemon" where
  "do_connect h i s =
     (let (r, need_connect) = connect_register h i (peers s) in
      case need_connect of
        None \<Rightarrow> s\<lparr>peers := r\<rparr>
      | Some b \<Rightarrow> spawn (add_mset (Watching h i) (if b then {#Claiming h#} else {#}))
                    (s\<lparr>peers := r\<rparr>))"

definition do_claim :: "hostname \<Rightarrow> daemon \<Rightarrow> daemon" where
  "do_claim h s =
     (let (r, should_connect) = connect_claim h (peers s) in
      move (Claiming h) (if should_connect then {#Probe h#} else {#}) (s\<lparr>peers := r\<rparr>))"

definition do_discover :: "hostname \<Rightarrow> pid list \<Rightarrow> daemon \<Rightarrow> daemon" where
  "do_discover h is s =
     (let (r, new_pids, should_connect) = discover_register h is (peers s) in
      move (Discovering h is)
        (mset (map (Watching h) new_pids) + (if should_connect then {#Probe h#} else {#}))
        (s\<lparr>peers := r\<rparr>))"

definition do_probed :: "hostname \<Rightarrow> bool \<Rightarrow> daemon \<Rightarrow> daemon" where
  "do_probed h found s =
     (if found then move (Probe h) {#Dial h#} s
      else move (Probe h) {#} (s\<lparr>peers := probe_found_none h (peers s)\<rparr>))"

text \<open>
  After a successful connect the task creates the close channel, enters its section and either
  keeps the connection, as a new task, or drops it.
\<close>

definition do_dialed :: "hostname \<Rightarrow> bool \<Rightarrow> daemon \<Rightarrow> daemon" where
  "do_dialed h ok s =
     (if ok then
        let c = next_chan s; (r, keep) = connection_established h c (peers s) in
        move (Dial h) (if keep then {#Conn h c#} else {#}) (s\<lparr>peers := r, next_chan := c + 1\<rparr>)
      else move (Dial h) {#} (s\<lparr>peers := connection_refused h (peers s)\<rparr>))"

text \<open>The sections of a liveness refresh.\<close>

definition do_refresh_clean :: "bool \<Rightarrow> hostname \<Rightarrow> hostname list \<Rightarrow> daemon \<Rightarrow> daemon" where
  "do_refresh_clean cc h hs s =
     move (Refresh cc (CleanIdle (h # hs))) {#Refresh cc (CleanIdle hs)#}
       (s\<lparr>peers := refresh_idle h (peers s)\<rparr>)"

definition do_refresh_scan ::
  "bool \<Rightarrow> hostname \<Rightarrow> hostname list \<Rightarrow> (hostname \<times> bool) list \<Rightarrow> daemon \<Rightarrow> daemon" where
  "do_refresh_scan cc h hs js s =
     move (Refresh cc (Scan (h # hs) js))
       {#Refresh cc (Scan hs (case refresh_candidate cc h (peers s) of
            None \<Rightarrow> js | Some was \<Rightarrow> js @ [(h, was)]))#} s"

definition do_refresh_join ::
  "bool \<Rightarrow> (hostname \<times> bool) list \<Rightarrow> hostname \<Rightarrow> bool \<Rightarrow> bool \<Rightarrow> daemon \<Rightarrow> daemon" where
  "do_refresh_join cc js h was reachable s =
     (let rest_jobs = {#Refresh cc (Scan [] (remove1 (h, was) js))#};
          here = Refresh cc (Scan [] js) in
      if reachable then
        (if was then move here rest_jobs s
         else let (r, should_connect) = refresh_claim h (peers s) in
           move here (rest_jobs + (if should_connect then {#Dial h#} else {#})) (s\<lparr>peers := r\<rparr>))
      else move here rest_jobs (s\<lparr>peers := refresh_unreachable h was (peers s)\<rparr>))"

inductive daemon_step :: "daemon \<Rightarrow> event \<Rightarrow> daemon \<Rightarrow> bool" where
  ipc_connect: "daemon_step s (IpcConnect h i) (do_connect h i s)"
| ipc_disconnect:
    "daemon_step s (IpcDisconnect h i) (s\<lparr>peers := handle_disconnect h i (peers s)\<rparr>)"
| claim: "Claiming h \<in># tasks s \<Longrightarrow> daemon_step s (Claimed h) (do_claim h s)"
| pid_exited: "Watching h i \<in># tasks s \<Longrightarrow>
    daemon_step s (PidExited h i)
      (move (Watching h i) {#} (s\<lparr>peers := handle_pid_exit h i (peers s)\<rparr>))"
| discovered: "daemon_step s (Discovered h is) (spawn {#Discovering h is#} s)"
| discover_section: "Discovering h is \<in># tasks s \<Longrightarrow>
    daemon_step s (DiscoverSection h is) (do_discover h is s)"
| probed: "Probe h \<in># tasks s \<Longrightarrow> daemon_step s (Probed h found) (do_probed h found s)"
| dialed: "Dial h \<in># tasks s \<Longrightarrow> daemon_step s (Dialed h ok) (do_dialed h ok s)"
| forwarded: "Conn h c \<in># tasks s \<Longrightarrow> daemon_step s (Forwarded h c) s"
| conn_ended: "Conn h c \<in># tasks s \<Longrightarrow> (why = CloseSignal \<Longrightarrow> \<not> chan_open s h c) \<Longrightarrow>
    daemon_step s (ConnEnded h c why) (move (Conn h c) {#Closing h c#} s)"
| cleaned_up: "Closing h c \<in># tasks s \<Longrightarrow>
    daemon_step s (CleanedUp h c)
      (move (Closing h c) {#} (s\<lparr>peers := connection_ended h (peers s)\<rparr>))"
| inbound_open: "daemon_step s (InboundOpened h)
    (spawn {#Inbound h#} (s\<lparr>peers := inbound_opened h (peers s)\<rparr>))"
| inbound_close: "Inbound h \<in># tasks s \<Longrightarrow>
    daemon_step s (InboundClosed h)
      (move (Inbound h) {#} (s\<lparr>peers := inbound_closed h (peers s)\<rparr>))"
| refresh_start: "mset hs = mset (connected_hosts_without_sessions (peers s)) \<Longrightarrow>
    daemon_step s (RefreshStarted cc hs) (spawn {#Refresh cc (CleanIdle hs)#} s)"
| refresh_clean: "Refresh cc (CleanIdle (h # hs)) \<in># tasks s \<Longrightarrow>
    daemon_step s (RefreshCleaned cc h hs) (do_refresh_clean cc h hs s)"
| refresh_list: "Refresh cc (CleanIdle []) \<in># tasks s \<Longrightarrow>
    mset hs = mset (hosts_with_sessions (peers s)) \<Longrightarrow>
    daemon_step s (RefreshListed cc hs)
      (move (Refresh cc (CleanIdle [])) {#Refresh cc (Scan hs [])#} s)"
| refresh_scan: "Refresh cc (Scan (h # hs) js) \<in># tasks s \<Longrightarrow>
    daemon_step s (RefreshScanned cc h hs js) (do_refresh_scan cc h hs js s)"
| refresh_join: "Refresh cc (Scan [] js) \<in># tasks s \<Longrightarrow> (h, was) \<in> set js \<Longrightarrow>
    daemon_step s (RefreshJoined cc js h was reachable) (do_refresh_join cc js h was reachable s)"
| refresh_job_failed: "Refresh cc (Scan [] js) \<in># tasks s \<Longrightarrow> (h, was) \<in> set js \<Longrightarrow>
    daemon_step s (RefreshJobFailed cc js h was)
      (move (Refresh cc (Scan [] js)) {#Refresh cc (Scan [] (remove1 (h, was) js))#} s)"
| refresh_done: "Refresh cc (Scan [] []) \<in># tasks s \<Longrightarrow>
    infos = (if cc then list_peers (peers s) else []) \<Longrightarrow>
    daemon_step s (RefreshDone cc infos) (move (Refresh cc (Scan [] [])) {#} s)"

text \<open>
  The event determines the step: whether it can happen is a computable condition on the state, and
  the next state is a function of the state and the event.
\<close>

fun enabled :: "daemon \<Rightarrow> event \<Rightarrow> bool" where
  "enabled s (IpcConnect h i) = True"
| "enabled s (IpcDisconnect h i) = True"
| "enabled s (Claimed h) = (Claiming h \<in># tasks s)"
| "enabled s (PidExited h i) = (Watching h i \<in># tasks s)"
| "enabled s (Discovered h is) = True"
| "enabled s (DiscoverSection h is) = (Discovering h is \<in># tasks s)"
| "enabled s (Probed h found) = (Probe h \<in># tasks s)"
| "enabled s (Dialed h ok) = (Dial h \<in># tasks s)"
| "enabled s (Forwarded h c) = (Conn h c \<in># tasks s)"
| "enabled s (ConnEnded h c why) =
     (Conn h c \<in># tasks s \<and> (why \<noteq> CloseSignal \<or> \<not> chan_open s h c))"
| "enabled s (CleanedUp h c) = (Closing h c \<in># tasks s)"
| "enabled s (InboundOpened h) = True"
| "enabled s (InboundClosed h) = (Inbound h \<in># tasks s)"
| "enabled s (RefreshStarted cc hs) =
     (mset hs = mset (connected_hosts_without_sessions (peers s)))"
| "enabled s (RefreshCleaned cc h hs) = (Refresh cc (CleanIdle (h # hs)) \<in># tasks s)"
| "enabled s (RefreshListed cc hs) =
     (Refresh cc (CleanIdle []) \<in># tasks s \<and> mset hs = mset (hosts_with_sessions (peers s)))"
| "enabled s (RefreshScanned cc h hs js) = (Refresh cc (Scan (h # hs) js) \<in># tasks s)"
| "enabled s (RefreshJoined cc js h was found) =
     (Refresh cc (Scan [] js) \<in># tasks s \<and> (h, was) \<in> set js)"
| "enabled s (RefreshJobFailed cc js h was) =
     (Refresh cc (Scan [] js) \<in># tasks s \<and> (h, was) \<in> set js)"
| "enabled s (RefreshDone cc infos) =
     (Refresh cc (Scan [] []) \<in># tasks s \<and> infos = (if cc then list_peers (peers s) else []))"

fun fire :: "event \<Rightarrow> daemon \<Rightarrow> daemon" where
  "fire (IpcConnect h i) s = do_connect h i s"
| "fire (IpcDisconnect h i) s = s\<lparr>peers := handle_disconnect h i (peers s)\<rparr>"
| "fire (Claimed h) s = do_claim h s"
| "fire (PidExited h i) s =
     move (Watching h i) {#} (s\<lparr>peers := handle_pid_exit h i (peers s)\<rparr>)"
| "fire (Discovered h is) s = spawn {#Discovering h is#} s"
| "fire (DiscoverSection h is) s = do_discover h is s"
| "fire (Probed h found) s = do_probed h found s"
| "fire (Dialed h ok) s = do_dialed h ok s"
| "fire (Forwarded h c) s = s"
| "fire (ConnEnded h c why) s = move (Conn h c) {#Closing h c#} s"
| "fire (CleanedUp h c) s =
     move (Closing h c) {#} (s\<lparr>peers := connection_ended h (peers s)\<rparr>)"
| "fire (InboundOpened h) s = spawn {#Inbound h#} (s\<lparr>peers := inbound_opened h (peers s)\<rparr>)"
| "fire (InboundClosed h) s =
     move (Inbound h) {#} (s\<lparr>peers := inbound_closed h (peers s)\<rparr>)"
| "fire (RefreshStarted cc hs) s = spawn {#Refresh cc (CleanIdle hs)#} s"
| "fire (RefreshCleaned cc h hs) s = do_refresh_clean cc h hs s"
| "fire (RefreshListed cc hs) s =
     move (Refresh cc (CleanIdle [])) {#Refresh cc (Scan hs [])#} s"
| "fire (RefreshScanned cc h hs js) s = do_refresh_scan cc h hs js s"
| "fire (RefreshJoined cc js h was found) s = do_refresh_join cc js h was found s"
| "fire (RefreshJobFailed cc js h was) s =
     move (Refresh cc (Scan [] js)) {#Refresh cc (Scan [] (remove1 (h, was) js))#} s"
| "fire (RefreshDone cc infos) s = move (Refresh cc (Scan [] [])) {#} s"

lemma daemon_step_iff: "daemon_step s e s' \<longleftrightarrow> enabled s e \<and> s' = fire e s"
proof
  show "daemon_step s e s' \<Longrightarrow> enabled s e \<and> s' = fire e s"
    by (induction rule: daemon_step.induct) auto
  show "enabled s e \<and> s' = fire e s \<Longrightarrow> daemon_step s e s'"
    by (cases e) (auto intro: daemon_step.intros)
qed

text \<open>The states the daemon can be in when only events that satisfy \<open>A\<close> happen.\<close>

inductive reachable :: "(event \<Rightarrow> bool) \<Rightarrow> daemon \<Rightarrow> bool" for A where
  start: "reachable A initial"
| step: "reachable A s \<Longrightarrow> A e \<Longrightarrow> daemon_step s e s' \<Longrightarrow> reachable A s'"

fun any_event :: "event \<Rightarrow> bool" where
  "any_event e = True"

text \<open>Runs without the \<open>Disconnect\<close> message, which no part of tassh sends.\<close>

fun no_disconnect :: "event \<Rightarrow> bool" where
  "no_disconnect (IpcDisconnect h i) = False"
| "no_disconnect e = True"

end
