(* ===== verification/Rust_Str.thy ===== *)
theory Rust_Str
  imports Tassh_Prelude
begin

text \<open>
  The string functions of Rust's standard library that tassh uses, on the UTF-8 bytes of a
  string: trimming and splitting at Unicode white space, splitting at an ASCII character, lines,
  decimal numbers, ASCII case, substrings, and slicing, which panics inside a character. A
  multi-byte character is recognised by its bytes; in valid UTF-8 its encoding occurs at character
  boundaries only.
\<close>

text \<open>A panic is an error value of its own.\<close>

datatype panic = SliceNotAtBoundary

section \<open>Prefixes and suffixes\<close>

definition starts_with :: "string \<Rightarrow> string \<Rightarrow> bool" where
  "starts_with p s \<longleftrightarrow> take (length p) s = p"

definition ends_with :: "string \<Rightarrow> string \<Rightarrow> bool" where
  "ends_with p s \<longleftrightarrow> starts_with (rev p) (rev s)"

definition strip_prefix :: "string \<Rightarrow> string \<Rightarrow> string option" where
  "strip_prefix p s = (if starts_with p s then Some (drop (length p) s) else None)"

definition strip_suffix :: "string \<Rightarrow> string \<Rightarrow> string option" where
  "strip_suffix p s = (if ends_with p s then Some (take (length s - length p) s) else None)"

fun contains :: "string \<Rightarrow> string \<Rightarrow> bool" where
  "contains p [] \<longleftrightarrow> p = []"
| "contains p (c # s) \<longleftrightarrow> starts_with p (c # s) \<or> contains p s"

section \<open>White space\<close>

text \<open>The encodings of the characters with the Unicode property \<open>White_Space\<close>.\<close>

definition ws_chars :: "string list" where
  "ws_chars =
     [[CHR 0x09], [CHR 0x0A], [CHR 0x0B], [CHR 0x0C], [CHR 0x0D], [CHR 0x20],
      [CHR 0xC2, CHR 0x85], [CHR 0xC2, CHR 0xA0], [CHR 0xE1, CHR 0x9A, CHR 0x80],
      [CHR 0xE2, CHR 0x80, CHR 0x80], [CHR 0xE2, CHR 0x80, CHR 0x81],
      [CHR 0xE2, CHR 0x80, CHR 0x82], [CHR 0xE2, CHR 0x80, CHR 0x83],
      [CHR 0xE2, CHR 0x80, CHR 0x84], [CHR 0xE2, CHR 0x80, CHR 0x85],
      [CHR 0xE2, CHR 0x80, CHR 0x86], [CHR 0xE2, CHR 0x80, CHR 0x87],
      [CHR 0xE2, CHR 0x80, CHR 0x88], [CHR 0xE2, CHR 0x80, CHR 0x89],
      [CHR 0xE2, CHR 0x80, CHR 0x8A], [CHR 0xE2, CHR 0x80, CHR 0xA8],
      [CHR 0xE2, CHR 0x80, CHR 0xA9], [CHR 0xE2, CHR 0x80, CHR 0xAF],
      [CHR 0xE2, CHR 0x81, CHR 0x9F], [CHR 0xE3, CHR 0x80, CHR 0x80]]"

text \<open>The number of bytes of the white-space character a string starts with, or 0.\<close>

definition ws_len :: "string \<Rightarrow> nat" where
  "ws_len s = (case find (\<lambda>w. starts_with w s) ws_chars of Some w \<Rightarrow> length w | None \<Rightarrow> 0)"

definition ws_len_end :: "string \<Rightarrow> nat" where
  "ws_len_end s = (case find (\<lambda>w. ends_with w s) ws_chars of Some w \<Rightarrow> length w | None \<Rightarrow> 0)"

lemma ws_char_nonempty: "w \<in> set ws_chars \<Longrightarrow> w \<noteq> []"
  by (auto simp: ws_chars_def)

lemma starts_with_length: "starts_with p s \<Longrightarrow> length p \<le> length s"
  unfolding starts_with_def by (metis length_take min.cobounded1)

lemma ends_with_length: "ends_with p s \<Longrightarrow> length p \<le> length s"
  by (auto simp: ends_with_def dest: starts_with_length)

lemma ws_len_le: "ws_len s \<le> length s"
  by (auto simp: ws_len_def find_Some_iff dest: starts_with_length split: option.splits)

lemma ws_len_end_le: "ws_len_end s \<le> length s"
  by (auto simp: ws_len_end_def find_Some_iff dest: ends_with_length split: option.splits)

lemma ws_len_Nil [simp]: "ws_len [] = 0" "ws_len_end [] = 0"
  using ws_len_le [of "[]"] ws_len_end_le [of "[]"] by simp_all

function trim_start :: "string \<Rightarrow> string" where
  "trim_start s = (if ws_len s = 0 then s else trim_start (drop (ws_len s) s))"
  by pat_completeness auto
termination
  by (relation "measure length") (auto simp: neq_Nil_conv intro!: diff_less intro: Nat.gr0I)

function trim_end :: "string \<Rightarrow> string" where
  "trim_end s = (if ws_len_end s = 0 then s else trim_end (take (length s - ws_len_end s) s))"
  by pat_completeness auto
termination
proof (relation "measure length")
  fix s :: string
  assume "ws_len_end s \<noteq> 0"
  with ws_len_end_le [of s] show "(take (length s - ws_len_end s) s, s) \<in> measure length" by simp
qed simp

declare trim_start.simps [simp del] trim_end.simps [simp del]

definition trim :: "string \<Rightarrow> string" where
  "trim s = trim_start (trim_end s)"

text \<open>\<open>split_whitespace\<close>: the maximal pieces without white space.\<close>

fun span_word :: "string \<Rightarrow> string \<times> string" where
  "span_word [] = ([], [])"
| "span_word (c # s) =
     (if ws_len (c # s) > 0 then ([], c # s) else let (w, r) = span_word s in (c # w, r))"

lemma span_word_length: "length (fst (span_word s)) + length (snd (span_word s)) = length s"
  by (induction s) (auto split: prod.splits)

lemma trim_start_length: "length (trim_start s) \<le> length s"
proof (induction s rule: trim_start.induct)
  case (1 s)
  then show ?case by (cases "ws_len s = 0") (auto simp: trim_start.simps [of s])
qed

lemma trim_start_no_ws: "ws_len (trim_start s) = 0"
proof (induction s rule: trim_start.induct)
  case (1 s)
  then show ?case by (cases "ws_len s = 0") (auto simp: trim_start.simps [of s])
qed

lemma span_word_progress: "ws_len s = 0 \<Longrightarrow> s \<noteq> [] \<Longrightarrow> length (snd (span_word s)) < length s"
proof (cases s)
  case (Cons c t)
  assume "ws_len s = 0"
  with Cons span_word_length [of t] show ?thesis by (auto split: prod.splits)
qed simp

function split_whitespace :: "string \<Rightarrow> string list" where
  "split_whitespace s =
     (if trim_start s = [] then []
      else fst (span_word (trim_start s)) # split_whitespace (snd (span_word (trim_start s))))"
  by pat_completeness auto
termination
proof (relation "measure length")
  fix s :: string
  assume "trim_start s \<noteq> []"
  then have "length (snd (span_word (trim_start s))) < length (trim_start s)"
    using span_word_progress trim_start_no_ws by blast
  with trim_start_length [of s]
  show "(snd (span_word (trim_start s)), s) \<in> measure length" by simp
qed simp

declare split_whitespace.simps [simp del]

section \<open>Splitting, lines, numbers, case\<close>

text \<open>\<open>s.split(c).next()\<close> and \<open>s.rsplit(c).next()\<close>, which always exist.\<close>

definition before_first :: "char \<Rightarrow> string \<Rightarrow> string" where
  "before_first c s = takeWhile (\<lambda>x. x \<noteq> c) s"

definition after_last :: "char \<Rightarrow> string \<Rightarrow> string" where
  "after_last c s = rev (takeWhile (\<lambda>x. x \<noteq> c) (rev s))"

definition trim_end_matches :: "(char \<Rightarrow> bool) \<Rightarrow> string \<Rightarrow> string" where
  "trim_end_matches P s = rev (dropWhile P (rev s))"

definition trim_matches :: "(char \<Rightarrow> bool) \<Rightarrow> string \<Rightarrow> string" where
  "trim_matches P s = trim_end_matches P (dropWhile P s)"

text \<open>
  \<open>str::lines\<close>: pieces ending in a line feed, without it and without one carriage return before
  it; a last piece without a line feed is a line if it is not empty.
\<close>

definition strip_cr :: "string \<Rightarrow> string" where
  "strip_cr l = (case strip_suffix [CHR 0x0D] l of Some l' \<Rightarrow> l' | None \<Rightarrow> l)"

fun lines_from :: "string \<Rightarrow> string \<Rightarrow> string list" where
  "lines_from acc [] = (if acc = [] then [] else [rev acc])"
| "lines_from acc (c # s) =
     (if c = CHR 0x0A then strip_cr (rev acc) # lines_from [] s
      else lines_from (c # acc) s)"

definition str_lines :: "string \<Rightarrow> string list" where
  "str_lines s = lines_from [] s"

definition char_code :: "char \<Rightarrow> nat" where
  "char_code c = of_char c"

definition is_digit :: "char \<Rightarrow> bool" where
  "is_digit c \<longleftrightarrow> 48 \<le> char_code c \<and> char_code c \<le> 57"

fun digits_value :: "nat \<Rightarrow> string \<Rightarrow> nat" where
  "digits_value n [] = n"
| "digits_value n (c # s) = digits_value (10 * n + (char_code c - 48)) s"

text \<open>\<open>parse::<u32>\<close>: an optional plus sign and at least one digit, in range.\<close>

definition parse_u32 :: "string \<Rightarrow> u32 option" where
  "parse_u32 s =
     (let ds = (case s of c # t \<Rightarrow> if c = CHR ''+'' then t else s | [] \<Rightarrow> s) in
      if ds \<noteq> [] \<and> list_all is_digit ds \<and> digits_value 0 ds < 2 ^ 32
      then Some (word_of_nat (digits_value 0 ds)) else None)"

text \<open>\<open>parse::<i32>\<close>: an optional sign and at least one digit, in range.\<close>

definition parse_i32 :: "string \<Rightarrow> int option" where
  "parse_i32 s =
     (let neg = (case s of c # _ \<Rightarrow> c = CHR ''-'' | [] \<Rightarrow> False);
          ds = (case s of c # t \<Rightarrow> if c = CHR ''+'' \<or> c = CHR ''-'' then t else s | [] \<Rightarrow> s);
          n = int (digits_value 0 ds);
          v = (if neg then - n else n)
      in if ds \<noteq> [] \<and> list_all is_digit ds \<and> - (2 ^ 31) \<le> v \<and> v < 2 ^ 31 then Some v else None)"

text \<open>The decimal form of an unsigned number.\<close>

fun show_nat :: "nat \<Rightarrow> string" where
  "show_nat n =
     (if n < 10 then [char_of (48 + n)] else show_nat (n div 10) @ [char_of (48 + n mod 10)])"

declare show_nat.simps [simp del]

definition ascii_lower :: "char \<Rightarrow> char" where
  "ascii_lower c =
     (if 65 \<le> char_code c \<and> char_code c \<le> 90 then char_of (char_code c + 32) else c)"

definition to_ascii_lowercase :: "string \<Rightarrow> string" where
  "to_ascii_lowercase s = map ascii_lower s"

definition is_ascii_alphanumeric :: "char \<Rightarrow> bool" where
  "is_ascii_alphanumeric c \<longleftrightarrow>
     is_digit c \<or> (65 \<le> char_code c \<and> char_code c \<le> 90)
     \<or> (97 \<le> char_code c \<and> char_code c \<le> 122)"

definition is_ascii :: "char \<Rightarrow> bool" where
  "is_ascii c \<longleftrightarrow> char_code c < 128"

section \<open>Slices\<close>

text \<open>A byte position is a character boundary unless a continuation byte stands there.\<close>

definition is_char_boundary :: "string \<Rightarrow> nat \<Rightarrow> bool" where
  "is_char_boundary s k \<longleftrightarrow>
     k = 0 \<or> k = length s
     \<or> (k < length s \<and> (char_code (s ! k) < 128 \<or> 192 \<le> char_code (s ! k)))"

definition slice_to :: "string \<Rightarrow> nat \<Rightarrow> panic + string" where
  "slice_to s k = (if is_char_boundary s k then Inr (take k s) else Inl SliceNotAtBoundary)"

section \<open>Paths\<close>

text \<open>\<open>PathBuf::join\<close> on path texts.\<close>

definition path_join :: "string \<Rightarrow> string \<Rightarrow> string" where
  "path_join a b =
     (if starts_with ''/'' b then b
      else if a = [] \<or> last a = CHR ''/'' then a @ b
      else a @ ''/'' @ b)"

section \<open>Decimal numbers\<close>

lemma char_code_char_of [str_simps]: "n < 256 \<Longrightarrow> char_code (char_of n) = n"
  by (simp add: char_code_def)

lemma char_code_lower:
  "char_code (ascii_lower c) =
     (if 65 \<le> char_code c \<and> char_code c \<le> 90 then char_code c + 32 else char_code c)"
  by (simp add: ascii_lower_def char_code_char_of)

lemma digits_value_append:
  "digits_value n (s @ [c]) = 10 * digits_value n s + (char_code c - 48)"
  by (induction s arbitrary: n) auto

lemma show_nat_digits: "list_all is_digit (show_nat n) \<and> show_nat n \<noteq> []"
proof (induction n rule: show_nat.induct)
  case (1 n)
  have "n mod 10 < 10" by simp
  with 1 show ?case
    by (auto simp: show_nat.simps [of n] is_digit_def char_code_char_of)
qed

lemma show_nat_value [simp]: "digits_value 0 (show_nat n) = n"
proof (induction n rule: show_nat.induct)
  case (1 n)
  have "n mod 10 < 10" by simp
  with 1 show ?case
    by (auto simp: show_nat.simps [of n] digits_value_append char_code_char_of)
qed

lemma show_nat_eq [simp]: "show_nat m = show_nat n \<longleftrightarrow> m = n"
  by (metis show_nat_value)

lemma show_nat_hd_digit: "is_digit (hd (show_nat n))"
  using show_nat_digits [of n] by (cases "show_nat n") auto

lemma parse_show_nat: "n < 2 ^ 32 \<Longrightarrow> parse_u32 (show_nat n) = Some (word_of_nat n)"
proof -
  assume "n < 2 ^ 32"
  moreover have "hd (show_nat n) \<noteq> CHR ''+''"
    using show_nat_hd_digit [of n] by (auto simp: is_digit_def char_code_def)
  ultimately have "(case show_nat n of c # t \<Rightarrow> if c = CHR ''+'' then t else show_nat n | [] \<Rightarrow> show_nat n)
      = show_nat n"
    by (auto split: list.splits)
  with \<open>n < 2 ^ 32\<close> show_nat_digits [of n] show ?thesis by (simp add: parse_u32_def)
qed

section \<open>Trimming printable text\<close>

text \<open>Printable ASCII text without spaces has no white space in it.\<close>

definition printable :: "char \<Rightarrow> bool" where
  "printable c \<longleftrightarrow> 32 < char_code c \<and> char_code c < 127"

lemma starts_with_hd:
  "starts_with w s \<Longrightarrow> w \<noteq> [] \<Longrightarrow> hd w \<in> set s"
  by (cases s; cases w) (auto simp: starts_with_def)

lemma ws_char_not_printable: "w \<in> set ws_chars \<Longrightarrow> \<not> printable (hd w) \<and> \<not> printable (last w)"
  by (auto simp: ws_chars_def char_code_def printable_def)

lemma ws_len_printable:
  assumes "list_all printable s"
  shows "ws_len s = 0" and "ws_len_end s = 0"
proof -
  have "\<not> starts_with w s \<and> \<not> ends_with w s" if w: "w \<in> set ws_chars" for w
  proof -
    have "hd w \<in> set s" if "starts_with w s"
      using that ws_char_nonempty [OF w] by (rule starts_with_hd)
    moreover have "last w \<in> set s" if "ends_with w s"
      using starts_with_hd [of "rev w" "rev s"] that ws_char_nonempty [OF w]
      by (simp add: ends_with_def hd_rev)
    ultimately show ?thesis using assms ws_char_not_printable [OF w] by (auto simp: list_all_iff)
  qed
  then have "find (\<lambda>w. starts_with w s) ws_chars = None" "find (\<lambda>w. ends_with w s) ws_chars = None"
    by (auto simp: find_None_iff)
  then show "ws_len s = 0" and "ws_len_end s = 0" by (simp_all add: ws_len_def ws_len_end_def)
qed

lemma trim_printable: "list_all printable s \<Longrightarrow> trim s = s"
  by (simp add: trim_def trim_start.simps [of s] trim_end.simps [of s] ws_len_printable)

lemma trim_line: "list_all printable s \<Longrightarrow> trim (s @ [CHR 0x0A]) = s"
proof -
  assume s: "list_all printable s"
  have "ws_len_end (s @ [CHR 0x0A]) = 1"
    by (simp add: ws_len_end_def ws_chars_def ends_with_def starts_with_def)
  with s show ?thesis
    by (simp add: trim_def trim_end.simps [of "s @ [CHR 0x0A]"] trim_end.simps [of s]
        trim_start.simps [of s] ws_len_printable)
qed

lemma show_nat_printable: "list_all printable (show_nat n)"
  using show_nat_digits [of n] by (auto simp: list_all_iff is_digit_def printable_def)

section \<open>Substrings\<close>

lemma starts_with_iff: "starts_with p s \<longleftrightarrow> (\<exists>t. s = p @ t)"
  unfolding starts_with_def by (metis append_eq_conv_conj append_take_drop_id)

lemma ends_with_iff: "ends_with p s \<longleftrightarrow> (\<exists>t. s = t @ p)"
  unfolding ends_with_def starts_with_iff by (metis rev_append rev_rev_ident)

lemma contains_iff: "contains p s \<longleftrightarrow> (\<exists>a b. s = a @ p @ b)"
proof (induction s)
  case (Cons c s)
  have "(\<exists>a b. c # s = a @ p @ b) \<longleftrightarrow> (\<exists>b. c # s = p @ b) \<or> (\<exists>a b. s = a @ p @ b)"
    by (metis Cons_eq_append_conv append_Cons append_Nil)
  with Cons show ?case by (simp add: starts_with_iff)
qed simp

lemma path_join_eq:
  "\<not> starts_with ''/'' a \<Longrightarrow> \<not> starts_with ''/'' b \<Longrightarrow> path_join h a = path_join h b \<longleftrightarrow> a = b"
  by (auto simp: path_join_def)

end
