(* ===== verification/Protocol.thy ===== *)
theory Protocol
  imports Tassh_Prelude
begin

text \<open>
  The wire format of \<^verbatim>\<open>src/src/protocol.rs\<close>: the frame record, its serialiser
  \<open>to_bytes\<close>, its parser \<open>from_bytes\<close> with the error values in the order the code
  checks them, and the display environments. The interface that the transport relies on
  (a prefix-free codec with a length in its header) is the locale \<open>frame_codec\<close>, interpreted
  here on \<open>to_bytes\<close> and \<open>from_bytes\<close>.
\<close>

unbundle bit_operations_syntax

section \<open>Constants and data\<close>

definition MAGIC :: bytes where
  "MAGIC = [0xC5, 0x53]"

definition VERSION :: byte where
  "VERSION = 1"

definition FRAME_TYPE_PNG :: byte where
  "FRAME_TYPE_PNG = 0x01"

definition HEADER_LEN :: nat where
  "HEADER_LEN = 8"

text \<open>\<open>u32::MAX as usize\<close>, the largest payload a frame can carry.\<close>

definition U32_MAX :: nat where
  "U32_MAX = 2 ^ 32 - 1"

datatype FrameError =
    InvalidMagic
  | UnsupportedVersion byte
  | TooShort
  | TooLarge nat
  | LengthMismatch (expected: nat) (actual: nat)

datatype DisplayEnvironment = Wayland | X11 | Xvfb | Headless

record Frame =
  frame_type :: byte
  payload :: bytes

definition new_png :: "bytes \<Rightarrow> Frame" where
  "new_png p = \<lparr>frame_type = FRAME_TYPE_PNG, payload = p\<rparr>"

text \<open>\<open>u32::to_be_bytes\<close> and \<open>u32::from_be_bytes\<close> of the standard library.\<close>

definition u32_to_be_bytes :: "u32 \<Rightarrow> bytes" where
  "u32_to_be_bytes w =
     [ucast (drop_bit 24 w), ucast (drop_bit 16 w), ucast (drop_bit 8 w), ucast w]"

definition u32_from_be_bytes :: "byte \<Rightarrow> byte \<Rightarrow> byte \<Rightarrow> byte \<Rightarrow> u32" where
  "u32_from_be_bytes a b c d =
     push_bit 24 (ucast a) OR push_bit 16 (ucast b) OR push_bit 8 (ucast c) OR ucast d"

section \<open>Serialising and parsing\<close>

definition to_bytes :: "Frame \<Rightarrow> FrameError + bytes" where
  "to_bytes f =
     (let len = length (payload f) in
      if len > U32_MAX then Inl (TooLarge len)
      else Inr ([MAGIC ! 0, MAGIC ! 1, VERSION, frame_type f]
                @ u32_to_be_bytes (word_of_nat len) @ payload f))"

definition from_bytes :: "bytes \<Rightarrow> FrameError + Frame" where
  "from_bytes data =
     (if length data < HEADER_LEN then Inl TooShort
      else if data ! 0 \<noteq> MAGIC ! 0 \<or> data ! 1 \<noteq> MAGIC ! 1 then Inl InvalidMagic
      else if data ! 2 \<noteq> VERSION then Inl (UnsupportedVersion (data ! 2))
      else
        let ftype = data ! 3;
            expected_len =
              unat (u32_from_be_bytes (data ! 4) (data ! 5) (data ! 6) (data ! 7));
            available = length data - HEADER_LEN
        in if available \<noteq> expected_len
           then Inl (LengthMismatch expected_len available)
           else Inr \<lparr>frame_type = ftype, payload = drop HEADER_LEN data\<rparr>)"

text \<open>The payload length that the four length bytes of a header announce.\<close>

definition header_payload_len :: "bytes \<Rightarrow> nat" where
  "header_payload_len h = unat (u32_from_be_bytes (h ! 4) (h ! 5) (h ! 6) (h ! 7))"

section \<open>Big-endian integers\<close>

lemma byte_bit_high: "8 \<le> n \<Longrightarrow> \<not> bit (b :: byte) n"
  by (auto dest: bit_imp_le_length)

lemma u32_to_from_be [codec_simps]: "u32_to_be_bytes (u32_from_be_bytes a b c d) = [a, b, c, d]"
  unfolding u32_to_be_bytes_def u32_from_be_bytes_def
  by (auto intro!: bit_word_eqI simp: bit_simps byte_bit_high)

lemma u32_from_to_be [codec_simps]:
  "u32_from_be_bytes (ucast (drop_bit 24 w)) (ucast (drop_bit 16 w)) (ucast (drop_bit 8 w)) (ucast w)
     = w"
proof (rule bit_word_eqI)
  fix n
  assume "n < LENGTH(32)"
  then consider "n < 8" | "8 \<le> n" "n < 16" | "16 \<le> n" "n < 24" | "24 \<le> n" "n < 32"
    by fastforce
  then show "bit (u32_from_be_bytes (ucast (drop_bit 24 w)) (ucast (drop_bit 16 w))
      (ucast (drop_bit 8 w)) (ucast w)) n = bit w n"
    by cases (auto simp: u32_from_be_bytes_def bit_simps byte_bit_high)
qed

lemma u32_len_roundtrip [codec_simps]:
  "n \<le> U32_MAX \<Longrightarrow> unat (word_of_nat n :: u32) = n"
  by (simp add: U32_MAX_def unsigned_of_nat take_bit_nat_eq_self)

lemma unat_u32_le_MAX: "unat (w :: u32) \<le> U32_MAX"
  using unsigned_less [where 'b = 32 and 'a = nat and w = w] by (simp add: U32_MAX_def)

section \<open>The codec laws\<close>

lemma to_bytes_shape:
  assumes "to_bytes f = Inr bs"
  shows "length (payload f) \<le> U32_MAX"
    and "bs = [0xC5, 0x53, 1, frame_type f]
      @ u32_to_be_bytes (word_of_nat (length (payload f))) @ payload f"
  using assms by (auto simp: to_bytes_def Let_def MAGIC_def VERSION_def split: if_splits)

lemma to_bytes_length: "to_bytes f = Inr bs \<Longrightarrow> length bs = HEADER_LEN + length (payload f)"
  by (auto simp: to_bytes_def u32_to_be_bytes_def HEADER_LEN_def Let_def split: if_splits)

lemma to_bytes_total_iff: "(\<exists>bs. to_bytes f = Inr bs) \<longleftrightarrow> length (payload f) \<le> U32_MAX"
  by (auto simp: to_bytes_def Let_def)

lemma header_len_of_to_bytes:
  assumes "to_bytes f = Inr bs"
  shows "header_payload_len (take HEADER_LEN bs) = length bs - HEADER_LEN"
  using to_bytes_shape [OF assms] to_bytes_length [OF assms]
  by (simp add: header_payload_len_def HEADER_LEN_def u32_to_be_bytes_def codec_simps)

lemma from_bytes_to_bytes:
  assumes "to_bytes f = Inr bs"
  shows "from_bytes bs = Inr f"
  using to_bytes_shape [OF assms]
  by (simp add: from_bytes_def HEADER_LEN_def u32_to_be_bytes_def MAGIC_def VERSION_def Let_def
      codec_simps)


text \<open>A list of at least eight bytes, taken apart into the header fields and the payload.\<close>

lemma header_split:
  assumes "8 \<le> length (data :: bytes)"
  obtains a b c d e f g h rest where "data = [a, b, c, d, e, f, g, h] @ rest"
proof -
  have "data = take 8 data @ drop 8 data" by simp
  moreover obtain a b c d e f g h where "take 8 data = [a, b, c, d, e, f, g, h]"
    using assms by (auto simp: length_Suc_conv eval_nat_numeral Suc_le_length_iff)
  ultimately show ?thesis using that by metis
qed

lemma to_bytes_from_bytes:
  assumes "from_bytes bs = Inr f"
  shows "to_bytes f = Inr bs"
proof -
  from assms have "8 \<le> length bs" by (auto simp: from_bytes_def HEADER_LEN_def split: if_splits)
  then obtain a b c d e1 e2 e3 e4 rest where bs: "bs = [a, b, c, d, e1, e2, e3, e4] @ rest"
    by (rule header_split)
  with assms have len: "length rest = unat (u32_from_be_bytes e1 e2 e3 e4)"
    and f: "f = \<lparr>frame_type = d, payload = rest\<rparr>"
    and hd: "a = MAGIC ! 0" "b = MAGIC ! 1" "c = VERSION"
    by (auto simp: from_bytes_def HEADER_LEN_def Let_def split: if_splits)
  then show ?thesis
    using unat_u32_le_MAX [of "u32_from_be_bytes e1 e2 e3 e4"]
    by (auto simp: bs to_bytes_def Let_def u32_to_from_be)
qed

section \<open>The interface the transport relies on\<close>

text \<open>
  A frame codec: an encoder that may refuse a frame, a decoder that undoes it, and a header of
  fixed length that announces how many bytes follow it. From these laws alone, encodings are
  prefix-free, so that frames sent back to back can be told apart.
\<close>

locale frame_codec =
  fixes enc :: "'f \<Rightarrow> 'e + bytes"
    and dec :: "bytes \<Rightarrow> 'd + 'f"
    and hdr :: nat
    and body_len :: "bytes \<Rightarrow> nat"
  assumes dec_enc: "enc f = Inr bs \<Longrightarrow> dec bs = Inr f"
    and enc_dec: "dec bs = Inr f \<Longrightarrow> enc f = Inr bs"
    and enc_header: "enc f = Inr bs \<Longrightarrow> hdr \<le> length bs"
    and enc_body: "enc f = Inr bs \<Longrightarrow> body_len (take hdr bs) = length bs - hdr"
begin

lemma enc_inject: "enc f = Inr bs \<Longrightarrow> enc g = Inr bs \<Longrightarrow> f = g"
  by (auto dest!: dec_enc)

lemma enc_split_header:
  assumes "enc f = Inr bs"
  shows "take hdr (bs @ tl_bs) = take hdr bs"
    and "drop hdr (bs @ tl_bs) = drop hdr bs @ tl_bs"
    and "length (drop hdr bs) = body_len (take hdr bs)"
  using enc_header [OF assms] enc_body [OF assms] by auto

lemma enc_prefix_free:
  assumes f: "enc f = Inr bs" and g: "enc g = Inr cs" and eq: "bs @ xs = cs @ ys"
  shows "f = g \<and> bs = cs \<and> xs = ys"
proof -
  have "take hdr bs = take hdr cs"
    using enc_split_header(1) [OF f, of xs] enc_split_header(1) [OF g, of ys] eq by metis
  then have "length bs = length cs"
    using enc_header [OF f] enc_body [OF f] enc_header [OF g] enc_body [OF g]
    by (metis le_add_diff_inverse)
  with eq have "bs = cs" "xs = ys" by auto
  with f g show ?thesis by (auto dest: enc_inject)
qed

end

interpretation wire: frame_codec to_bytes from_bytes HEADER_LEN header_payload_len
  by unfold_locales
    (erule from_bytes_to_bytes to_bytes_from_bytes header_len_of_to_bytes | simp add: to_bytes_length)+

section \<open>The errors of the parser\<close>

lemma from_bytes_Inl_iff:
  "from_bytes bs = Inl e \<longleftrightarrow>
    (case e of
       TooShort \<Rightarrow> length bs < 8
     | InvalidMagic \<Rightarrow> 8 \<le> length bs \<and> take 2 bs \<noteq> [0xC5, 0x53]
     | UnsupportedVersion v \<Rightarrow> 8 \<le> length bs \<and> take 2 bs = [0xC5, 0x53] \<and> v = bs ! 2 \<and> v \<noteq> 1
     | LengthMismatch ex ac \<Rightarrow> 8 \<le> length bs \<and> take 3 bs = [0xC5, 0x53, 1]
         \<and> ex = header_payload_len bs \<and> ac + 8 = length bs \<and> ex \<noteq> ac
     | TooLarge n \<Rightarrow> False)"
proof (cases "8 \<le> length bs")
  case True
  then obtain a b c d e1 e2 e3 e4 rest where "bs = [a, b, c, d, e1, e2, e3, e4] @ rest"
    by (rule header_split)
  then show ?thesis
    by (auto simp: from_bytes_def HEADER_LEN_def MAGIC_def VERSION_def header_payload_len_def
        Let_def split: FrameError.splits)
next
  case False
  then show ?thesis by (auto simp: from_bytes_def HEADER_LEN_def split: FrameError.splits)
qed

section \<open>Properties\<close>

text \<open>
  C15. The parser accepts exactly the serialiser's output: a byte string parses to a frame if
  and only if serialising that frame gives that byte string. This is the round trip in both
  directions, for every frame type, payload and byte string.
\<close>

theorem parse_iff_serialise: "from_bytes bs = Inr f \<longleftrightarrow> to_bytes f = Inr bs"
  by (blast intro: from_bytes_to_bytes to_bytes_from_bytes)

text \<open>
  C25. Serialising succeeds exactly for the payloads that a 32-bit length can describe; the
  encoding is then eight bytes longer than the payload, starts with the magic bytes, the version
  and the frame type, and ends with the payload unchanged. A larger payload is refused with its
  length.
\<close>

theorem serialise_layout:
  "(if length (payload f) < 2 ^ 32
    then \<exists>bs. to_bytes f = Inr bs \<and> length bs = 8 + length (payload f)
      \<and> take 4 bs = [0xC5, 0x53, 1, frame_type f]
      \<and> header_payload_len bs = length (payload f) \<and> drop 8 bs = payload f
    else to_bytes f = Inl (TooLarge (length (payload f))))"
proof (cases "length (payload f) < 2 ^ 32")
  case True
  then have "length (payload f) \<le> U32_MAX" by (simp add: U32_MAX_def)
  then show ?thesis
    by (auto simp: to_bytes_def Let_def MAGIC_def VERSION_def u32_to_be_bytes_def
        header_payload_len_def codec_simps U32_MAX_def)
next
  case False
  then show ?thesis by (simp add: to_bytes_def Let_def U32_MAX_def)
qed

text \<open>
  C24. Every rejected byte string is rejected with the first check that fails, in the order length,
  magic, version, payload length, and the error carries the offending values.
\<close>

theorem parse_error_iff:
  "from_bytes bs = Inl e \<longleftrightarrow>
    (case e of
       TooShort \<Rightarrow> length bs < 8
     | InvalidMagic \<Rightarrow> 8 \<le> length bs \<and> take 2 bs \<noteq> [0xC5, 0x53]
     | UnsupportedVersion v \<Rightarrow> 8 \<le> length bs \<and> take 2 bs = [0xC5, 0x53] \<and> v = bs ! 2 \<and> v \<noteq> 1
     | LengthMismatch ex ac \<Rightarrow> 8 \<le> length bs \<and> take 3 bs = [0xC5, 0x53, 1]
         \<and> ex = header_payload_len bs \<and> ac + 8 = length bs \<and> ex \<noteq> ac
     | TooLarge n \<Rightarrow> False)"
  by (rule from_bytes_Inl_iff)

end
