(* ===== verification/Display.thy ===== *)
theory Display
  imports Rust_Str Protocol
begin

text \<open>
  The display manager of \<^verbatim>\<open>src/src/display.rs\<close>: detection of the display environment, the
  removal of stale lock files, the start of Xvfb and the publication of its display, and the
  monitor task that restarts Xvfb, together with \<open>shutdown\<close>, which competes with it for the lock
  of the child handle. The file system is a map from paths to texts; what the operating system
  and Xvfb answer is a parameter.
\<close>

type_synonym files = "string \<Rightarrow> string option"
type_synonym environment = "string \<Rightarrow> string option"

section \<open>Stale lock files\<close>

definition lock_path :: "nat \<Rightarrow> string" where
  "lock_path n = ''/tmp/.X'' @ show_nat n @ ''-lock''"

definition x_socket_path :: "nat \<Rightarrow> string" where
  "x_socket_path n = ''/tmp/.X11-unix/X'' @ show_nat n"

text \<open>Removing a file takes effect where the file may be removed; its result is ignored.\<close>

definition remove_file :: "(string \<Rightarrow> bool) \<Rightarrow> string \<Rightarrow> files \<Rightarrow> files" where
  "remove_file removable p fs = (if removable p then fs(p := None) else fs)"

text \<open>
  One round of \<open>clean_stale_xvfb_locks\<close>; \<open>alive\<close> tells whether \<open>kill(pid, 0)\<close> returns 0.
\<close>

definition clean_lock :: "(int \<Rightarrow> bool) \<Rightarrow> (string \<Rightarrow> bool) \<Rightarrow> nat \<Rightarrow> files \<Rightarrow> files" where
  "clean_lock alive removable n fs =
     (case fs (lock_path n) of
        None \<Rightarrow> fs
      | Some pid_str \<Rightarrow>
          (case parse_i32 (trim pid_str) of
             None \<Rightarrow> fs
           | Some p \<Rightarrow>
               if p > 0 then
                 if \<not> alive p
                 then remove_file removable (x_socket_path n) (remove_file removable (lock_path n) fs)
                 else fs
               else fs))"

definition clean_stale_xvfb_locks :: "(int \<Rightarrow> bool) \<Rightarrow> (string \<Rightarrow> bool) \<Rightarrow> files \<Rightarrow> files" where
  "clean_stale_xvfb_locks alive removable fs = fold (clean_lock alive removable) [0 ..< 100] fs"

section \<open>Starting Xvfb\<close>

datatype display_error =
    PipeFailed
  | XvfbNotFound
  | XvfbSpawnFailed nat
  | DisplayfdReadFailed
  | UnexpectedDisplayNumber string
  | PublishFailed

text \<open>What Xvfb did with the pipe: the text read until the end of the file, unless reading failed.\<close>

definition read_displayfd :: "string option \<Rightarrow> display_error + u32" where
  "read_displayfd got =
     (case got of
        None \<Rightarrow> Inl DisplayfdReadFailed
      | Some buf \<Rightarrow>
          (case parse_u32 (trim buf) of
             None \<Rightarrow> Inl (UnexpectedDisplayNumber (trim buf))
           | Some n \<Rightarrow> Inr n))"

datatype xvfb_start =
    NoPipe
  | NotInstalled
  | CannotSpawn nat
  | Started "string option"

definition spawn_xvfb :: "xvfb_start \<Rightarrow> display_error + string" where
  "spawn_xvfb x =
     (case x of
        NoPipe \<Rightarrow> Inl PipeFailed
      | NotInstalled \<Rightarrow> Inl XvfbNotFound
      | CannotSpawn e \<Rightarrow> Inl (XvfbSpawnFailed e)
      | Started got \<Rightarrow>
          bind_result (read_displayfd got) (\<lambda>n. Inr (CHR '':'' # show_nat (unat n))))"

definition display_file_path :: "environment \<Rightarrow> string" where
  "display_file_path env =
     (let home = (case env ''HOME'' of Some h \<Rightarrow> h | None \<Rightarrow> ''/root'')
      in path_join (path_join home ''.tassh'') ''display'')"

definition display_script :: "string \<Rightarrow> string" where
  "display_script d =
     ''export DISPLAY='' @ d @ [CHR 0x0A] @ ''unset WAYLAND_DISPLAY'' @ [CHR 0x0A]
     @ ''unset WAYLAND_SOCKET'' @ [CHR 0x0A]"

text \<open>\<open>writable\<close> tells whether the directory can be made and the file written.\<close>

definition publish_display :: "environment \<Rightarrow> bool \<Rightarrow> string \<Rightarrow> files \<Rightarrow> display_error + files" where
  "publish_display env writable d fs =
     (if writable then Inr (fs(display_file_path env \<mapsto> display_script d)) else Inl PublishFailed)"

section \<open>Detection\<close>

record DisplayManager =
  dm_env :: DisplayEnvironment
  dm_display_str :: string
  dm_has_child :: bool

record host =
  host_files :: files
  host_env :: environment

definition nonempty_var :: "environment \<Rightarrow> string \<Rightarrow> string option" where
  "nonempty_var e v = (case e v of Some s \<Rightarrow> if s \<noteq> [] then Some s else None | None \<Rightarrow> None)"

definition init_xvfb ::
  "(int \<Rightarrow> bool) \<Rightarrow> (string \<Rightarrow> bool) \<Rightarrow> xvfb_start \<Rightarrow> bool \<Rightarrow> host
     \<Rightarrow> (display_error + DisplayManager) \<times> host" where
  "init_xvfb alive removable x writable w =
     (let w1 = w\<lparr>host_files := clean_stale_xvfb_locks alive removable (host_files w)\<rparr> in
      case spawn_xvfb x of
        Inl e \<Rightarrow> (Inl e, w1)
      | Inr d \<Rightarrow>
          let w2 = w1\<lparr>host_env := (host_env w1)(''DISPLAY'' \<mapsto> d)\<rparr> in
          (case publish_display (host_env w2) writable d (host_files w2) of
             Inl e \<Rightarrow> (Inl e, w2)
           | Inr fs \<Rightarrow>
               (Inr \<lparr>dm_env = Xvfb, dm_display_str = d, dm_has_child = True\<rparr>, w2\<lparr>host_files := fs\<rparr>)))"

definition detect_and_init ::
  "(int \<Rightarrow> bool) \<Rightarrow> (string \<Rightarrow> bool) \<Rightarrow> xvfb_start \<Rightarrow> bool \<Rightarrow> bool \<Rightarrow> host
     \<Rightarrow> (display_error + DisplayManager) \<times> host" where
  "detect_and_init alive removable x writable force_xvfb w =
     (case (if force_xvfb then None else nonempty_var (host_env w) ''WAYLAND_DISPLAY'') of
        Some wd \<Rightarrow> (Inr \<lparr>dm_env = Wayland, dm_display_str = wd, dm_has_child = False\<rparr>, w)
      | None \<Rightarrow>
          (case (if force_xvfb then None else nonempty_var (host_env w) ''DISPLAY'') of
             Some d \<Rightarrow> (Inr \<lparr>dm_env = X11, dm_display_str = d, dm_has_child = False\<rparr>, w)
           | None \<Rightarrow> init_xvfb alive removable x writable w))"

section \<open>The monitor and the shutdown\<close>

text \<open>
  The state both tasks share: the child handle and its lock, the published display, and where
  each task waits. \<open>Storing d\<close> is a monitor that has respawned Xvfb and wants the lock to store the
  new child; \<open>Exited\<close> is the end of the whole process.
\<close>

datatype child = Running | Dead
datatype monitor_pc = Locking | Waiting | Sleeping nat | Storing string | Stopped | Exited
datatype shutdown_pc = NotCalled | WantsLock | Finished | TimedOut

record supervisor =
  child_handle :: "child option"
  locked :: bool
  monitor :: monitor_pc
  attempts :: nat
  shutdown :: shutdown_pc
  published :: "string option"
  orphans :: nat

definition MAX_ATTEMPTS :: nat where
  "MAX_ATTEMPTS = 5"

definition supervising :: "string \<Rightarrow> supervisor" where
  "supervising d = \<lparr>child_handle = Some Running, locked = False, monitor = Locking, attempts = 0,
     shutdown = NotCalled, published = Some d, orphans = 0\<rparr>"

text \<open>The monitor has the lock: it waits for the child, or stops if there is none.\<close>

definition monitor_locked :: "supervisor \<Rightarrow> supervisor" where
  "monitor_locked s =
     (case child_handle s of
        Some c \<Rightarrow> s\<lparr>locked := True, monitor := Waiting\<rparr>
      | None \<Rightarrow> s\<lparr>monitor := Stopped\<rparr>)"

text \<open>The child has exited: count the attempt, then give up or back off.\<close>

definition monitor_reaped :: "supervisor \<Rightarrow> supervisor" where
  "monitor_reaped s =
     (let n = attempts s + 1; s1 = s\<lparr>locked := False, attempts := n\<rparr> in
      if n \<ge> MAX_ATTEMPTS then s1\<lparr>monitor := Exited\<rparr>
      else s1\<lparr>monitor := Sleeping (2 ^ n)\<rparr>)"

text \<open>
  The respawn after the backoff; a display that cannot be published is a warning. If Xvfb ran but
  its display could not be read, its handle is dropped and the process is left to itself.
\<close>

definition monitor_respawned :: "xvfb_start \<Rightarrow> bool \<Rightarrow> supervisor \<Rightarrow> supervisor" where
  "monitor_respawned x writable s =
     (case spawn_xvfb x of
        Inr d \<Rightarrow> s\<lparr>published := (if writable then Some d else published s), monitor := Storing d\<rparr>
      | Inl e \<Rightarrow> s\<lparr>monitor := Locking,
                  orphans := (case x of Started got \<Rightarrow> orphans s + 1 | _ \<Rightarrow> orphans s)\<rparr>)"

definition monitor_stored :: "supervisor \<Rightarrow> supervisor" where
  "monitor_stored s = s\<lparr>child_handle := Some Running, attempts := 0, monitor := Locking\<rparr>"

text \<open>\<open>DisplayManager::shutdown\<close> once it has the lock: the child is killed, the file removed.\<close>

definition shutdown_locked :: "supervisor \<Rightarrow> supervisor" where
  "shutdown_locked s = s\<lparr>child_handle := None, published := None, shutdown := Finished\<rparr>"

datatype sup_event =
    MonitorLocks | ChildExits | MonitorReaps | WaitFails | Respawned xvfb_start bool
  | MonitorStores | ShutdownCalled | ShutdownLocks | ShutdownTimesOut

text \<open>
  The steps of the two tasks. The lock is held across a step only while the monitor waits for the
  child; the shutdown runs under a deadline, after which the daemon ends.
\<close>

inductive sup_step :: "supervisor \<Rightarrow> sup_event \<Rightarrow> supervisor \<Rightarrow> bool" where
  monitor_locks: "monitor s = Locking \<Longrightarrow> \<not> locked s \<Longrightarrow>
    sup_step s MonitorLocks (monitor_locked s)"
| child_exits: "child_handle s = Some Running \<Longrightarrow> monitor s \<noteq> Exited \<Longrightarrow>
    sup_step s ChildExits (s\<lparr>child_handle := Some Dead\<rparr>)"
| monitor_reaps: "monitor s = Waiting \<Longrightarrow> child_handle s = Some Dead \<Longrightarrow>
    sup_step s MonitorReaps (monitor_reaped s)"
| wait_fails: "monitor s = Waiting \<Longrightarrow>
    sup_step s WaitFails (s\<lparr>locked := False, monitor := Stopped\<rparr>)"
| respawned: "monitor s = Sleeping k \<Longrightarrow>
    sup_step s (Respawned x writable) (monitor_respawned x writable s)"
| monitor_stores: "monitor s = Storing d \<Longrightarrow> \<not> locked s \<Longrightarrow>
    sup_step s MonitorStores (monitor_stored s)"
| shutdown_called: "shutdown s = NotCalled \<Longrightarrow> monitor s \<noteq> Exited \<Longrightarrow>
    sup_step s ShutdownCalled (s\<lparr>shutdown := WantsLock\<rparr>)"
| shutdown_locks: "shutdown s = WantsLock \<Longrightarrow> \<not> locked s \<Longrightarrow> monitor s \<noteq> Exited \<Longrightarrow>
    sup_step s ShutdownLocks (shutdown_locked s)"
| shutdown_times_out: "shutdown s = WantsLock \<Longrightarrow> monitor s \<noteq> Exited \<Longrightarrow>
    sup_step s ShutdownTimesOut (s\<lparr>shutdown := TimedOut\<rparr>)"

inductive sup_run :: "supervisor \<Rightarrow> sup_event list \<Rightarrow> supervisor \<Rightarrow> bool" where
  sup_nil: "sup_run s [] s"
| sup_cons: "sup_step s e s' \<Longrightarrow> sup_run s' es s'' \<Longrightarrow> sup_run s (e # es) s''"

inductive_simps sup_step_simps:
  "sup_step s MonitorLocks s'" "sup_step s ChildExits s'" "sup_step s MonitorReaps s'"
  "sup_step s WaitFails s'" "sup_step s (Respawned x writable) s'" "sup_step s MonitorStores s'"
  "sup_step s ShutdownCalled s'" "sup_step s ShutdownLocks s'" "sup_step s ShutdownTimesOut s'"

inductive_simps sup_run_nil [simp]: "sup_run s [] s'"
inductive_simps sup_run_cons: "sup_run s (e # es) s'"

end
