(* ===== verification/Clipboard.thy ===== *)
theory Clipboard
  imports Protocol
begin

text \<open>
  The clipboard sides of \<^verbatim>\<open>src/src/clipboard.rs\<close>: the two loops that watch the
  clipboard and forward new images, the writer that keeps a clipboard-holding subprocess alive,
  and the check for the external tools. What the subprocesses, the \<open>arboard\<close> library, the
  PNG encoder and SHA-256 return is a parameter; what the code makes of it is modelled, with the
  polls of a loop given as the finite list of outcomes seen so far.
\<close>

section \<open>Subprocesses and errors\<close>

record command =
  program :: string
  arguments :: "string list"
  env_set :: "(string \<times> string) list"
  env_removed :: "string list"

text \<open>An operating system error by its code; \<open>NotFound\<close> is the kind the code tells apart.\<close>

datatype spawn_error = NotFound | OtherSpawn nat

text \<open>The \<open>anyhow\<close> errors of the file, by message.\<close>

datatype clip_error =
    NoDisplayServer
  | CommandFailed spawn_error
  | BackendFailed
  | ByteCountMismatch nat nat
  | EncodeFailed
  | ToolNotFound string
  | SpawnFailed string nat
  | WhichFailed nat
  | NoDisplayForWrite
  | StdinWriteFailed nat

section \<open>Watching with a subprocess\<close>

datatype WatchBackend = BackendX11 string | BackendWayland string

definition nonempty :: "string option \<Rightarrow> string option" where
  "nonempty v = (case v of Some s \<Rightarrow> if s = [] then None else Some s | None \<Rightarrow> None)"

definition choose_backend :: "string option \<Rightarrow> string option \<Rightarrow> clip_error + WatchBackend" where
  "choose_backend display_override wayland_display_override =
     (case nonempty wayland_display_override of
        Some wd \<Rightarrow> Inr (BackendWayland wd)
      | None \<Rightarrow>
          (case nonempty display_override of
             Some dpy \<Rightarrow> Inr (BackendX11 dpy)
           | None \<Rightarrow> Inl NoDisplayServer))"

definition read_command :: "WatchBackend \<Rightarrow> command" where
  "read_command b =
     (case b of
        BackendX11 display \<Rightarrow>
          \<lparr>program = ''xclip'',
           arguments = [''-selection'', ''clipboard'', ''-t'', ''image/png'', ''-o'', ''-display'', display],
           env_set = [], env_removed = []\<rparr>
      | BackendWayland wayland_display \<Rightarrow>
          \<lparr>program = ''wl-paste'', arguments = [''--type'', ''image/png'', ''--no-newline''],
           env_set = [(''WAYLAND_DISPLAY'', wayland_display)], env_removed = [''DISPLAY'']\<rparr>)"

text \<open>The outcome of \<open>timeout(2 s, command.output())\<close>: the exit status is read as success or not.\<close>

datatype command_outcome = CommandTimeout | CommandError spawn_error | Output bool bytes

definition read_clipboard_png ::
  "(command \<Rightarrow> command_outcome) \<Rightarrow> WatchBackend \<Rightarrow> clip_error + bytes option" where
  "read_clipboard_png exec b =
     (case exec (read_command b) of
        CommandTimeout \<Rightarrow> Inr None
      | CommandError e \<Rightarrow> Inl (CommandFailed e)
      | Output success stdout \<Rightarrow>
          if \<not> success \<or> stdout = [] then Inr None else Inr (Some stdout))"

text \<open>
  The polling loop over the polls seen so far: each is the world the command runs in and whether
  the receiver of the frames still exists. The result is the frames sent and whether the loop has
  returned.
\<close>

fun command_loop ::
  "(bytes \<Rightarrow> 'h) \<Rightarrow> WatchBackend \<Rightarrow> 'h option \<Rightarrow> ((command \<Rightarrow> command_outcome) \<times> bool) list
     \<Rightarrow> Frame list \<times> bool" where
  "command_loop content_hash b last_hash [] = ([], False)"
| "command_loop content_hash b last_hash ((exec, rx_open) # polls) =
     (case read_clipboard_png exec b of
        Inr (Some png_bytes) \<Rightarrow>
          if Some (content_hash png_bytes) = last_hash
          then command_loop content_hash b last_hash polls
          else if \<not> rx_open then ([], True)
          else let (fs, returned) =
                 command_loop content_hash b (Some (content_hash png_bytes)) polls
               in (new_png png_bytes # fs, returned)
      | Inr None \<Rightarrow> command_loop content_hash b last_hash polls
      | Inl e \<Rightarrow> command_loop content_hash b last_hash polls)"

definition watch_clipboard_with_command ::
  "(bytes \<Rightarrow> 'h) \<Rightarrow> (command \<Rightarrow> command_outcome) \<Rightarrow> ((command \<Rightarrow> command_outcome) \<times> bool) list
     \<Rightarrow> string option \<Rightarrow> string option \<Rightarrow> clip_error + Frame list \<times> bool" where
  "watch_clipboard_with_command content_hash startup polls display_override wayland_override =
     bind_result (choose_backend display_override wayland_override) (\<lambda>b.
     bind_result (read_clipboard_png startup b) (\<lambda>png.
       Inr (command_loop content_hash b (map_option content_hash png) polls)))"

section \<open>Watching with arboard\<close>

record image =
  img_width :: nat
  img_height :: nat
  img_bytes :: bytes

text \<open>
  \<open>rgba_to_png\<close>: the dimensions are cast to \<open>u32\<close>, their product is taken in \<open>usize\<close>
  (64 bits, wrapping as in a release build); the image buffer and the encoder are the library's.
\<close>

definition rgba_to_png ::
  "(u32 \<Rightarrow> u32 \<Rightarrow> bytes \<Rightarrow> bytes option) \<Rightarrow> u32 \<Rightarrow> u32 \<Rightarrow> bytes \<Rightarrow> clip_error + bytes" where
  "rgba_to_png encode w h rgba =
     (let expected = unat (ucast w * ucast h * 4 :: 64 word) in
      if length rgba \<noteq> expected then Inl (ByteCountMismatch expected (length rgba))
      else case encode w h rgba of None \<Rightarrow> Inl EncodeFailed | Some png \<Rightarrow> Inr png)"

definition image_to_png ::
  "(u32 \<Rightarrow> u32 \<Rightarrow> bytes \<Rightarrow> bytes option) \<Rightarrow> image \<Rightarrow> clip_error + bytes" where
  "image_to_png encode img =
     rgba_to_png encode (word_of_nat (img_width img)) (word_of_nat (img_height img)) (img_bytes img)"

fun arboard_loop ::
  "(bytes \<Rightarrow> 'h) \<Rightarrow> (u32 \<Rightarrow> u32 \<Rightarrow> bytes \<Rightarrow> bytes option) \<Rightarrow> 'h option \<Rightarrow> (image option \<times> bool) list
     \<Rightarrow> Frame list \<times> bool" where
  "arboard_loop content_hash encode last_hash [] = ([], False)"
| "arboard_loop content_hash encode last_hash ((got, rx_open) # polls) =
     (case got of
        None \<Rightarrow> arboard_loop content_hash encode last_hash polls
      | Some img \<Rightarrow>
          let hash = content_hash (img_bytes img) in
          if Some hash = last_hash then arboard_loop content_hash encode last_hash polls
          else (case image_to_png encode img of
                  Inl e \<Rightarrow> arboard_loop content_hash encode last_hash polls
                | Inr png_bytes \<Rightarrow>
                    if \<not> rx_open then ([], True)
                    else let (fs, returned) = arboard_loop content_hash encode (Some hash) polls
                         in (new_png png_bytes # fs, returned)))"

definition check_x11_display :: "(string \<Rightarrow> string option) \<Rightarrow> clip_error + unit" where
  "check_x11_display env =
     (case env ''DISPLAY'' of
        Some d \<Rightarrow> if d \<noteq> [] then Inr () else Inl NoDisplayServer
      | None \<Rightarrow> Inl NoDisplayServer)"

text \<open>\<open>backend\<close> tells whether \<open>arboard::Clipboard::new\<close> succeeded.\<close>

definition watch_clipboard_with_arboard ::
  "(bytes \<Rightarrow> 'h) \<Rightarrow> (u32 \<Rightarrow> u32 \<Rightarrow> bytes \<Rightarrow> bytes option) \<Rightarrow> (string \<Rightarrow> string option) \<Rightarrow> bool
     \<Rightarrow> image option \<Rightarrow> (image option \<times> bool) list \<Rightarrow> clip_error + Frame list \<times> bool" where
  "watch_clipboard_with_arboard content_hash encode env backend startup polls =
     bind_result
       (case env ''WAYLAND_DISPLAY'' of
          Some wd \<Rightarrow> if wd \<noteq> [] then Inr () else check_x11_display env
        | None \<Rightarrow> check_x11_display env)
       (\<lambda>_. if \<not> backend then Inl BackendFailed
            else Inr (arboard_loop content_hash encode
                   (map_option (content_hash \<circ> img_bytes) startup) polls))"

definition watch_clipboard ::
  "(string option \<Rightarrow> string option \<Rightarrow> 'a) \<Rightarrow> 'a \<Rightarrow> string option \<Rightarrow> string option \<Rightarrow> 'a" where
  "watch_clipboard with_command with_arboard display_override wayland_override =
     (if display_override \<noteq> None \<or> wayland_override \<noteq> None
      then with_command display_override wayland_override else with_arboard)"

section \<open>The clipboard writer\<close>

record ClipboardWriter =
  current_child :: "nat option"
  display :: DisplayEnvironment
  display_str :: "string option"

text \<open>
  The subprocesses that were started and not killed by their writer, with the data their standard
  input received if it was written in full, and the identity of the next one.
\<close>

record processes =
  holders :: "(nat \<times> command \<times> bytes option) list"
  next_child :: nat

definition new_writer :: "DisplayEnvironment \<Rightarrow> string option \<Rightarrow> ClipboardWriter" where
  "new_writer d s = \<lparr>current_child = None, display = d, display_str = s\<rparr>"

definition kill_child :: "nat \<Rightarrow> processes \<Rightarrow> processes" where
  "kill_child c ps = ps\<lparr>holders := filter (\<lambda>(i, _). i \<noteq> c) (holders ps)\<rparr>"

definition write_command ::
  "(string \<Rightarrow> string option) \<Rightarrow> DisplayEnvironment \<Rightarrow> string option \<Rightarrow> command option" where
  "write_command env d dstr =
     (case d of
        Wayland \<Rightarrow>
          Some \<lparr>program = ''wl-copy'', arguments = [''--type'', ''image/png''],
                env_set = [], env_removed = []\<rparr>
      | Headless \<Rightarrow> None
      | _ \<Rightarrow>
          let display_val = (case dstr of Some v \<Rightarrow> v
                | None \<Rightarrow> (case env ''DISPLAY'' of Some v \<Rightarrow> v | None \<Rightarrow> '':0'')) in
          Some \<lparr>program = ''xclip'',
                arguments = [''-selection'', ''clipboard'', ''-t'', ''image/png'', ''-i'', ''-display'', display_val],
                env_set = [], env_removed = []\<rparr>)"

text \<open>
  \<open>ClipboardWriter::write\<close>. A child whose input could not be written is dropped without being
  killed: it stays among the processes.
\<close>

definition write_png ::
  "(string \<Rightarrow> string option) \<Rightarrow> (command \<Rightarrow> spawn_error option) \<Rightarrow> nat option \<Rightarrow> bytes
     \<Rightarrow> ClipboardWriter \<times> processes \<Rightarrow> (clip_error + unit) \<times> ClipboardWriter \<times> processes" where
  "write_png env spawn_result stdin_error png_bytes = (\<lambda>(wr, ps).
     let ps1 = (case current_child wr of Some c \<Rightarrow> kill_child c ps | None \<Rightarrow> ps);
         wr1 = wr\<lparr>current_child := None\<rparr>
     in case write_command env (display wr) (display_str wr) of
          None \<Rightarrow> (Inl NoDisplayForWrite, wr1, ps1)
        | Some cmd \<Rightarrow>
            (case spawn_result cmd of
               Some NotFound \<Rightarrow> (Inl (ToolNotFound (program cmd)), wr1, ps1)
             | Some (OtherSpawn e) \<Rightarrow> (Inl (SpawnFailed (program cmd) e), wr1, ps1)
             | None \<Rightarrow>
                 let c = next_child ps1;
                     started = (\<lambda>got. ps1\<lparr>holders := (c, cmd, got) # holders ps1, next_child := c + 1\<rparr>)
                 in (case stdin_error of
                       Some e \<Rightarrow> (Inl (StdinWriteFailed e), wr1, started None)
                     | None \<Rightarrow>
                         (Inr (), wr1\<lparr>current_child := Some c\<rparr>, started (Some png_bytes)))))"

section \<open>The check for tools\<close>

text \<open>\<open>which\<close> gives the outcome of \<^verbatim>\<open>which <tool>\<close>: an error to run it, or its success.\<close>

definition tool_present :: "(string \<Rightarrow> nat + bool) \<Rightarrow> string \<Rightarrow> clip_error + unit" where
  "tool_present which tool =
     (case which tool of
        Inl e \<Rightarrow> Inl (WhichFailed e)
      | Inr success \<Rightarrow> if \<not> success then Inl (ToolNotFound tool) else Inr ())"

definition check_clipboard_tools :: "(string \<Rightarrow> nat + bool) \<Rightarrow> DisplayEnvironment \<Rightarrow> clip_error + unit" where
  "check_clipboard_tools which d =
     (case d of
        Wayland \<Rightarrow> tool_present which ''wl-copy''
      | Headless \<Rightarrow> Inl NoDisplayForWrite
      | _ \<Rightarrow> tool_present which ''xclip'')"

end
