(* ===== verification/Startup.thy ===== *)
theory Startup
  imports Daemon Display Clipboard
begin

text \<open>
  The start of \<open>run_daemon\<close> with its error paths, the removal of its socket at the end, and the
  handling of one IPC connection (\<^verbatim>\<open>src/src/daemon.rs\<close>). The JSON library is a parameter.
\<close>

section \<open>Starting the daemon\<close>

definition daemon_home :: "environment \<Rightarrow> string" where
  "daemon_home env = (case env ''HOME'' of Some h \<Rightarrow> h | None \<Rightarrow> ''/tmp'')"

definition socket_path :: "environment \<Rightarrow> string" where
  "socket_path env = path_join (daemon_home env) ''.tassh/daemon.sock''"

text \<open>The parent of the socket path.\<close>

definition socket_dir :: "environment \<Rightarrow> string" where
  "socket_dir env = path_join (daemon_home env) ''.tassh''"

datatype daemon_error =
    CannotCreateDir
  | AlreadyRunning
  | DisplayInitFailed display_error
  | CannotBind
  | CannotHandleSignals

text \<open>The displays that the clipboard watcher is started with.\<close>

definition watcher_displays ::
  "string option \<Rightarrow> string option \<Rightarrow> DisplayManager \<Rightarrow> string option \<times> string option" where
  "watcher_displays original_display original_wayland_display dm =
     (let d = nonempty original_display; wd = nonempty original_wayland_display in
      if d \<noteq> None \<or> wd \<noteq> None then (d, wd)
      else case dm_env dm of
             Wayland \<Rightarrow> (None, Some (dm_display_str dm))
           | Headless \<Rightarrow> (None, None)
           | _ \<Rightarrow> (Some (dm_display_str dm), None))"

text \<open>
  What the outside does during a start: whether the directory can be made, whether a daemon
  answers on the socket, what the display initialisation meets, and whether the socket can be
  bound and the signal handlers installed.
\<close>

record start_world =
  st_mkdir :: bool
  st_live :: bool
  st_removable :: "string \<Rightarrow> bool"
  st_alive :: "int \<Rightarrow> bool"
  st_xvfb :: xvfb_start
  st_publishable :: bool
  st_bind :: bool
  st_signals :: bool

record running_daemon =
  rd_display :: DisplayManager
  rd_watcher :: "string option \<times> string option"

definition start_daemon :: "start_world \<Rightarrow> host \<Rightarrow> (daemon_error + running_daemon) \<times> host" where
  "start_daemon sw w =
     (let sock_path = socket_path (host_env w);
          original_display = host_env w ''DISPLAY'';
          original_wayland_display = host_env w ''WAYLAND_DISPLAY'' in
      if \<not> st_mkdir sw then (Inl CannotCreateDir, w)
      else
        let w1 = w\<lparr>host_files := remove_file (st_removable sw)
                     (path_join (socket_dir (host_env w)) ''display'') (host_files w)\<rparr> in
        if st_live sw then (Inl AlreadyRunning, w1)
        else
          let w2 = w1\<lparr>host_files := remove_file (st_removable sw) sock_path (host_files w1)\<rparr> in
          case detect_and_init (st_alive sw) (st_removable sw) (st_xvfb sw) (st_publishable sw) True w2 of
            (Inl e, w3) \<Rightarrow> (Inl (DisplayInitFailed e), w3)
          | (Inr dm, w3) \<Rightarrow>
              let watcher = watcher_displays original_display original_wayland_display dm in
              if \<not> st_bind sw then (Inl CannotBind, w3)
              else
                let w4 = w3\<lparr>host_files := (host_files w3)(sock_path \<mapsto> [])\<rparr> in
                if \<not> st_signals sw then (Inl CannotHandleSignals, w4)
                else (Inr \<lparr>rd_display = dm, rd_watcher = watcher\<rparr>, w4))"

text \<open>The last step of \<open>run_daemon\<close>, after the shutdown of the display.\<close>

definition remove_socket :: "(string \<Rightarrow> bool) \<Rightarrow> host \<Rightarrow> host" where
  "remove_socket removable w =
     w\<lparr>host_files := remove_file removable (socket_path (host_env w)) (host_files w)\<rparr>"

section \<open>One IPC connection\<close>

text \<open>
  What a connection makes the daemon do: nothing, a step of the daemon, or a frame put on the
  broadcast channel. A status request starts a refresh that checks connected peers; its end
  (\<open>RefreshDone\<close>) carries the list that \<open>status_reply\<close> sends back.
\<close>

datatype ipc_action = NoAction | DaemonEvent event | Broadcast Frame

definition handle_ipc_connection ::
  "(string \<Rightarrow> IpcMessage option) \<Rightarrow> string option \<Rightarrow> hostname list \<Rightarrow> ipc_action" where
  "handle_ipc_connection from_json line idle_hosts =
     (case line of
        None \<Rightarrow> NoAction
      | Some l \<Rightarrow>
          if l = [] then NoAction
          else (case from_json l of
                  Some (Connect h _ ssh_pid) \<Rightarrow> DaemonEvent (IpcConnect h ssh_pid)
                | Some (Disconnect h ssh_pid) \<Rightarrow> DaemonEvent (IpcDisconnect h ssh_pid)
                | Some StatusRequest \<Rightarrow> DaemonEvent (RefreshStarted True idle_hosts)
                | Some (InjectFrame png_bytes) \<Rightarrow> Broadcast (new_png png_bytes)
                | None \<Rightarrow> NoAction))"

definition status_reply :: "(StatusResponse \<Rightarrow> string) \<Rightarrow> PeerInfo list \<Rightarrow> string" where
  "status_reply to_json infos = to_json \<lparr>resp_peers = infos\<rparr> @ [CHR 0x0A]"

end
