(* ===== verification/Setup.thy ===== *)
theory Setup
  imports Display
begin

text \<open>
  The installer of \<^verbatim>\<open>src/src/setup.rs\<close>: the systemd unit, the hook in the SSH configuration
  and the snippet in the shell profiles, as changes of the files of the user, with the questions
  asked on the way. What the system calls, \<^verbatim>\<open>systemctl\<close> and the user answer is a parameter. At the
  end, what a second run of the installer does.
\<close>

section \<open>Paths\<close>

definition home_dir :: "environment \<Rightarrow> string" where
  "home_dir env = (case env ''HOME'' of Some h \<Rightarrow> h | None \<Rightarrow> ''/root'')"

definition binary_path :: "environment \<Rightarrow> string" where
  "binary_path env = path_join (home_dir env) ''.cargo/bin/tassh''"

definition unit_dir :: "environment \<Rightarrow> string" where
  "unit_dir env = path_join (home_dir env) ''.config/systemd/user''"

definition ssh_config_path :: "environment \<Rightarrow> string" where
  "ssh_config_path env = path_join (home_dir env) ''.ssh/config''"

section \<open>The shell snippet\<close>

definition newline :: string where
  "newline = [CHR 0x0A]"

definition snippet_marker :: string where
  "snippet_marker = ''# tassh: auto-export DISPLAY in SSH sessions''"

definition quoted :: "string \<Rightarrow> string" where
  "quoted s = CHR 0x22 # s @ [CHR 0x22]"

definition shell_snippet :: string where
  "shell_snippet =
     ''# tassh: auto-export DISPLAY in SSH sessions'' @ newline
     @ ''if [ -n '' @ quoted ''$SSH_CONNECTION'' @ '' ] && [ -f '' @ quoted ''$HOME/.tassh/display''
     @ '' ]; then'' @ newline
     @ ''    . '' @ quoted ''$HOME/.tassh/display'' @ newline
     @ ''fi'' @ newline"

text \<open>How the system calls on a profile went; a failed write may have written a part.\<close>

datatype profile_io =
    AllOk | OpenFails | LockFails | ReadFails | SeekFails | WriteFails nat | FlushFails

datatype setup_error =
    ProfileError profile_io
  | BinaryNotFound string
  | CannotCreateDir string
  | CannotWriteFile string
  | CannotReadFile string
  | SystemctlFailed "string list"

definition to_append :: "string \<Rightarrow> string" where
  "to_append content =
     (if content \<noteq> [] \<and> \<not> ends_with newline content then newline else [])
     @ newline @ shell_snippet"

text \<open>
  \<open>ensure_shell_snippet\<close> on the content of the profile, if it exists: opening creates it.
\<close>

definition ensure_shell_snippet ::
  "profile_io \<Rightarrow> string option \<Rightarrow> (setup_error + bool) \<times> string option" where
  "ensure_shell_snippet io profile =
     (if io = OpenFails then (Inl (ProfileError io), profile)
      else let content = (case profile of Some c \<Rightarrow> c | None \<Rightarrow> []) in
        if io = LockFails \<or> io = ReadFails then (Inl (ProfileError io), Some content)
        else if contains snippet_marker content then (Inr False, Some content)
        else case io of
               SeekFails \<Rightarrow> (Inl (ProfileError io), Some content)
             | WriteFails k \<Rightarrow> (Inl (ProfileError io), Some (content @ take k (to_append content)))
             | FlushFails \<Rightarrow> (Inl (ProfileError io), Some (content @ to_append content))
             | _ \<Rightarrow> (Inr True, Some (content @ to_append content)))"

definition profiles :: "string list" where
  "profiles = [''.zshrc'', ''.zprofile'', ''.bashrc'']"

text \<open>An error on one profile is a warning: the next profile is still handled.\<close>

definition install_shell_snippets ::
  "environment \<Rightarrow> (string \<Rightarrow> profile_io) \<Rightarrow> files \<Rightarrow> files" where
  "install_shell_snippets env io fs =
     fold (\<lambda>shell fs. let path = path_join (home_dir env) shell in
             fs(path := snd (ensure_shell_snippet (io shell) (fs path)))) profiles fs"

section \<open>Questions\<close>

text \<open>
  \<open>prompt_yes_no\<close>: \<open>tty\<close> tells whether standard input is a terminal, \<open>line\<close> is the line
  read, if reading worked. Only ASCII letters have the lower-case forms that are compared.
\<close>

definition prompt_yes_no :: "bool \<Rightarrow> string option \<Rightarrow> bool \<Rightarrow> bool" where
  "prompt_yes_no tty line default_yes =
     (if \<not> tty then False
      else case line of
             None \<Rightarrow> default_yes
           | Some input \<Rightarrow>
               let answer = to_ascii_lowercase (trim input) in
               if answer = ''y'' \<or> answer = ''yes'' then True
               else if answer = ''n'' \<or> answer = ''no'' then False
               else default_yes)"

section \<open>The SSH configuration\<close>

definition ssh_config_stanza :: string where
  "ssh_config_stanza =
     newline @ ''# tassh: notify daemon of SSH connections'' @ newline
     @ ''Host *'' @ newline
     @ ''    PermitLocalCommand yes'' @ newline
     @ ''    LocalCommand tassh notify --host %h --port %p --ssh-pid $PPID'' @ newline"

datatype config_outcome = AlreadyPresent | ManualNeeded | Appended | Created | Skipped

text \<open>
  What can fail: reading the file, opening it for appending, and writing or creating it.
\<close>

record config_io =
  readable :: bool
  can_append :: bool
  can_create :: bool

definition setup_ssh_config ::
  "environment \<Rightarrow> config_io \<Rightarrow> bool \<Rightarrow> bool \<Rightarrow> files \<Rightarrow> (setup_error + config_outcome) \<times> files" where
  "setup_ssh_config env io yes answer fs =
     (let path = ssh_config_path env;
          do_it = yes \<or> answer;
          ask = (if do_it then
                   (case fs path of
                      Some content \<Rightarrow>
                        if can_append io
                        then (Inr Appended, fs(path \<mapsto> content @ ssh_config_stanza @ newline))
                        else (Inl (CannotWriteFile path), fs)
                    | None \<Rightarrow>
                        if can_create io then (Inr Created, fs(path \<mapsto> ssh_config_stanza))
                        else (Inl (CannotWriteFile path), fs))
                 else (Inr Skipped, fs))
      in case fs path of
           None \<Rightarrow> ask
         | Some content \<Rightarrow>
             if \<not> readable io then (Inl (CannotReadFile path), fs)
             else if contains ''# tassh:'' content then (Inr AlreadyPresent, fs)
             else if contains ''LocalCommand'' content then (Inr ManualNeeded, fs)
             else ask)"

definition setup_shell_snippets ::
  "environment \<Rightarrow> (string \<Rightarrow> profile_io) \<Rightarrow> bool \<Rightarrow> bool \<Rightarrow> files \<Rightarrow> files" where
  "setup_shell_snippets env io yes answer fs =
     (if yes \<or> answer then install_shell_snippets env io fs else fs)"

section \<open>The installation\<close>

definition tassh_daemon_unit :: "environment \<Rightarrow> nat \<Rightarrow> string" where
  "tassh_daemon_unit env port =
     ''[Unit]'' @ newline
     @ ''Description=tassh daemon (SSH-triggered clipboard relay)'' @ newline
     @ ''After=network.target'' @ newline
     @ newline
     @ ''[Service]'' @ newline
     @ ''ExecStart='' @ binary_path env @ '' daemon --port '' @ show_nat port @ newline
     @ ''Restart=always'' @ newline
     @ ''RestartSec=5'' @ newline
     @ ''TimeoutStopSec=3'' @ newline
     @ newline
     @ ''[Install]'' @ newline
     @ ''WantedBy=default.target'' @ newline"

definition service_name :: string where
  "service_name = ''tassh-daemon.service''"

text \<open>
  The outside of an installation: \<open>systemctl\<close> tells whether a call ran and succeeded, the two
  answers are those to the questions, if they are asked.
\<close>

record setup_world =
  sw_env :: environment
  sw_mkdir :: bool
  sw_write_unit :: bool
  sw_systemctl :: "string list \<Rightarrow> bool"
  sw_config :: config_io
  sw_config_answer :: bool
  sw_profile :: "string \<Rightarrow> profile_io"
  sw_shell_answer :: bool

definition run_systemctl :: "setup_world \<Rightarrow> string list \<Rightarrow> setup_error + unit" where
  "run_systemctl w args = (if sw_systemctl w args then Inr () else Inl (SystemctlFailed args))"

definition run_setup_daemon ::
  "setup_world \<Rightarrow> nat \<Rightarrow> bool \<Rightarrow> files \<Rightarrow> (setup_error + unit) \<times> files" where
  "run_setup_daemon w port yes fs =
     (let env = sw_env w; unit_path = path_join (unit_dir env) service_name in
      if fs (binary_path env) = None then (Inl (BinaryNotFound (binary_path env)), fs)
      else if \<not> sw_mkdir w then (Inl (CannotCreateDir (unit_dir env)), fs)
      else if \<not> sw_write_unit w then (Inl (CannotWriteFile unit_path), fs)
      else
        let fs1 = fs(unit_path \<mapsto> tassh_daemon_unit env port) in
        case bind_result (run_systemctl w [''--user'', ''daemon-reload''])
               (\<lambda>_. bind_result (run_systemctl w [''--user'', ''enable'', service_name])
               (\<lambda>_. run_systemctl w [''--user'', ''start'', service_name])) of
          Inl e \<Rightarrow> (Inl e, fs1)
        | Inr _ \<Rightarrow>
            (case setup_ssh_config env (sw_config w) yes (sw_config_answer w) fs1 of
               (Inl e, fs2) \<Rightarrow> (Inl e, fs2)
             | (Inr _, fs2) \<Rightarrow>
                 (Inr (), setup_shell_snippets env (sw_profile w) yes (sw_shell_answer w) fs2)))"

section \<open>Properties\<close>

lemma marker_appended: "contains snippet_marker (content @ to_append content)"
proof -
  have "to_append content = (if content \<noteq> [] \<and> \<not> ends_with newline content then newline else [])
      @ newline @ snippet_marker @ drop (length snippet_marker) shell_snippet"
    by (simp add: to_append_def snippet_marker_def shell_snippet_def)
  then show ?thesis
    unfolding contains_iff
    by (metis append.assoc)
qed

lemma ensure_all_ok:
  "ensure_shell_snippet AllOk p =
     (let c = (case p of Some c \<Rightarrow> c | None \<Rightarrow> []) in
      if contains snippet_marker c then (Inr False, Some c) else (Inr True, Some (c @ to_append c)))"
  by (simp add: ensure_shell_snippet_def Let_def)

lemma ensure_again:
  "ensure_shell_snippet AllOk p = (Inr changed, c) \<Longrightarrow>
   ensure_shell_snippet AllOk c = (Inr False, c)"
  using marker_appended by (auto simp: ensure_all_ok Let_def split: if_splits)

text \<open>
  The snippet is added to a shell profile at most once: after a run the profile holds it, and a
  second run changes nothing. What was in the profile before stays in front, and the snippet
  starts on a line of its own.
\<close>
theorem profile_snippet_once:
  assumes "ensure_shell_snippet AllOk profile = (Inr changed, after)"
  shows "\<exists>c. after = Some c \<and> contains snippet_marker c
    \<and> ensure_shell_snippet AllOk after = (Inr False, after)
    \<and> (if changed
       then \<exists>sep. c = (case profile of Some old \<Rightarrow> old | None \<Rightarrow> []) @ sep @ shell_snippet
              \<and> set sep = {CHR 0x0A}
              \<and> ends_with newline ((case profile of Some old \<Rightarrow> old | None \<Rightarrow> []) @ sep)
       else c = (case profile of Some old \<Rightarrow> old | None \<Rightarrow> []))"
proof -
  define old where "old = (case profile of Some old \<Rightarrow> old | None \<Rightarrow> [])"
  define sep where "sep = (if old \<noteq> [] \<and> \<not> ends_with newline old then newline else []) @ newline"
  have sep: "old @ to_append old = old @ sep @ shell_snippet" "set sep = {CHR 0x0A}"
    "ends_with newline (old @ sep)"
    by (auto simp: sep_def to_append_def newline_def ends_with_iff)
  show ?thesis
  proof (cases "contains snippet_marker old")
    case True
    then have "changed = False" "after = Some old"
      using assms by (simp_all add: ensure_all_ok flip: old_def)
    then show ?thesis using True ensure_again [OF assms] by (simp flip: old_def)
  next
    case False
    then have "changed = True" "after = Some (old @ to_append old)"
      using assms by (simp_all add: ensure_all_ok flip: old_def)
    then show ?thesis
      using marker_appended [of old] ensure_again [OF assms] sep by (auto simp flip: old_def)
  qed
qed

lemma stanza_marker: "contains ''# tassh:'' (a @ ssh_config_stanza @ b)"
  unfolding contains_iff
  by (rule exI [of _ "a @ newline"], rule exI [of _ "drop 8 (tl ssh_config_stanza) @ b"])
    (simp add: ssh_config_stanza_def newline_def)

text \<open>
  C39. The installer changes no other file than the SSH configuration when it adds the hook there,
  keeps what the file held, does not touch a file that mentions a \<open>LocalCommand\<close>, and after it has
  added the hook, whatever the user says the next time, it adds no second one.
\<close>
theorem ssh_hook_added_once:
  assumes "setup_ssh_config env io yes answer fs = (r, fs')"
  shows "(\<forall>p. p \<noteq> ssh_config_path env \<longrightarrow> fs' p = fs p)
    \<and> (\<forall>c. fs (ssh_config_path env) = Some c \<longrightarrow>
          (\<exists>t. fs' (ssh_config_path env) = Some (c @ t) \<and> (contains ''LocalCommand'' c \<longrightarrow> t = [])))
    \<and> (r \<in> {Inr Appended, Inr Created} \<longrightarrow>
          setup_ssh_config env (io\<lparr>readable := True\<rparr>) yes' answer' fs' = (Inr AlreadyPresent, fs'))"
  using assms stanza_marker [of "[]" "[]"] stanza_marker [of _ newline]
  by (auto simp: setup_ssh_config_def Let_def split: option.splits if_splits)

theorem ssh_hook_added_once_witness:
  "\<exists>fs'. setup_ssh_config (\<lambda>v. None) \<lparr>readable = True, can_append = True, can_create = True\<rparr> True False
      [''/root/.ssh/config'' \<mapsto> ''Host a''] = (Inr Appended, fs')
    \<and> setup_ssh_config (\<lambda>v. None) \<lparr>readable = True, can_append = True, can_create = True\<rparr> False True fs'
      = (Inr AlreadyPresent, fs')"
proof -
  have path: "ssh_config_path (\<lambda>v. None) = ''/root/.ssh/config''"
    by (simp add: ssh_config_path_def home_dir_def path_join_def starts_with_def)
  then obtain fs' where run: "setup_ssh_config (\<lambda>v. None)
      \<lparr>readable = True, can_append = True, can_create = True\<rparr> True False
      [''/root/.ssh/config'' \<mapsto> ''Host a''] = (Inr Appended, fs')"
    by (simp add: setup_ssh_config_def Let_def starts_with_def)
  from ssh_hook_added_once [OF run, of False True] run show ?thesis by simp
qed

text \<open>The whole installation: where it writes, and that what it wrote settles the next run.\<close>

definition snippet_added :: "string option \<Rightarrow> string option" where
  "snippet_added profile = snd (ensure_shell_snippet AllOk profile)"

lemma snippet_added_again [simp]: "snippet_added (snippet_added p) = snippet_added p"
  using marker_appended by (auto simp: snippet_added_def ensure_all_ok Let_def split: if_splits)

lemma relative_paths:
  "\<not> starts_with ''/'' ''.zshrc''" "\<not> starts_with ''/'' ''.zprofile''" "\<not> starts_with ''/'' ''.bashrc''"
  "\<not> starts_with ''/'' ''.ssh/config''" "\<not> starts_with ''/'' ''.cargo/bin/tassh''"
  "\<not> starts_with ''/'' ''.config/systemd/user/tassh-daemon.service''"
  by (simp_all add: starts_with_def)

lemma unit_path:
  "path_join (unit_dir env) service_name
   = path_join (home_dir env) ''.config/systemd/user/tassh-daemon.service''"
  by (simp add: unit_dir_def service_name_def path_join_def starts_with_def)

lemmas setup_paths = unit_path ssh_config_path_def binary_path_def path_join_eq relative_paths

lemma install_apply:
  "install_shell_snippets env (\<lambda>_. AllOk) fs p =
     (if p \<in> path_join (home_dir env) ` set profiles then snippet_added (fs p) else fs p)"
  by (auto simp: install_shell_snippets_def profiles_def snippet_added_def Let_def setup_paths)

lemma config_settled:
  assumes "setup_ssh_config env io True answer fs = (Inr r, fs')"
  shows "\<exists>c. fs' (ssh_config_path env) = Some c
    \<and> (contains ''# tassh:'' c \<or> contains ''LocalCommand'' c)"
  using assms stanza_marker [of "[]" "[]"] stanza_marker [of _ newline]
  by (auto simp: setup_ssh_config_def Let_def split: option.splits if_splits)

lemma config_unchanged:
  assumes "gs (ssh_config_path env) = Some c" "contains ''# tassh:'' c \<or> contains ''LocalCommand'' c"
    and "readable io"
  shows "\<exists>r. setup_ssh_config env io yes answer gs = (Inr r, gs)"
  using assms by (auto simp: setup_ssh_config_def Let_def)

lemma config_elsewhere:
  "setup_ssh_config env io yes answer fs = (r, fs') \<Longrightarrow> p \<noteq> ssh_config_path env \<Longrightarrow> fs' p = fs p"
  by (auto simp: setup_ssh_config_def Let_def split: option.splits if_splits)

text \<open>
  C38. A second \<^verbatim>\<open>tassh setup daemon --yes\<close> changes nothing: where the first one succeeded, with all
  profiles writable, the files it left are the files the next one leaves.
\<close>
theorem setup_rerun_changes_nothing:
  assumes "run_setup_daemon w port True fs = (Inr (), fs')"
    and "sw_profile w = (\<lambda>_. AllOk)" and "readable (sw_config w)"
  shows "run_setup_daemon w port True fs' = (Inr (), fs')"
proof -
  define env where "env = sw_env w"
  let ?unit = "path_join (unit_dir env) service_name"
  let ?profiles = "path_join (home_dir env) ` set profiles"
  let ?ctl = "bind_result (run_systemctl w [''--user'', ''daemon-reload''])
               (\<lambda>_. bind_result (run_systemctl w [''--user'', ''enable'', service_name])
               (\<lambda>_. run_systemctl w [''--user'', ''start'', service_name]))"
  obtain r fs2 where bin: "fs (binary_path env) \<noteq> None"
    and io: "sw_mkdir w" "sw_write_unit w" "?ctl = Inr ()"
    and cfg: "setup_ssh_config env (sw_config w) True (sw_config_answer w)
        (fs(?unit \<mapsto> tassh_daemon_unit env port)) = (Inr r, fs2)"
    and fs': "fs' = install_shell_snippets env (\<lambda>_. AllOk) fs2"
    using assms(1,2)
    by (auto simp: run_setup_daemon_def Let_def setup_shell_snippets_def simp flip: env_def
        split: if_splits sum.splits prod.splits)
  have apart: "ssh_config_path env \<notin> ?profiles" "?unit \<notin> ?profiles" "binary_path env \<notin> ?profiles"
    "?unit \<noteq> ssh_config_path env" "?unit \<noteq> binary_path env" "binary_path env \<noteq> ssh_config_path env"
    by (auto simp: profiles_def setup_paths)
  have "fs2 ?unit = Some (tassh_daemon_unit env port)" "fs2 (binary_path env) \<noteq> None"
    using config_elsewhere [OF cfg] apart bin by auto
  then have unit: "fs'(?unit \<mapsto> tassh_daemon_unit env port) = fs'" and "fs' (binary_path env) \<noteq> None"
    using apart by (auto simp: fs' install_apply)
  obtain c where "fs2 (ssh_config_path env) = Some c"
    "contains ''# tassh:'' c \<or> contains ''LocalCommand'' c"
    using config_settled [OF cfg] by blast
  then obtain r' where cfg': "setup_ssh_config env (sw_config w) True (sw_config_answer w) fs' = (Inr r', fs')"
    using config_unchanged [of fs' env c "sw_config w" True "sw_config_answer w"] apart(1) assms(3)
    by (auto simp: fs' install_apply)
  have "install_shell_snippets env (\<lambda>_. AllOk) fs' = fs'"
    by (rule ext) (simp add: fs' install_apply)
  with \<open>fs' (binary_path env) \<noteq> None\<close> io unit cfg' assms(2) show ?thesis
    by (auto simp: run_setup_daemon_def Let_def setup_shell_snippets_def simp flip: env_def)
qed

theorem setup_rerun_changes_nothing_witness:
  "\<exists>fs'. run_setup_daemon
      \<lparr>sw_env = (\<lambda>v. None), sw_mkdir = True, sw_write_unit = True, sw_systemctl = (\<lambda>a. True),
       sw_config = \<lparr>readable = True, can_append = True, can_create = True\<rparr>, sw_config_answer = False,
       sw_profile = (\<lambda>_. AllOk), sw_shell_answer = False\<rparr> 9877 True fs' = (Inr (), fs')
    \<and> fs' ''/root/.ssh/config'' = Some ssh_config_stanza"
proof -
  define w where "w = \<lparr>sw_env = (\<lambda>v. None), sw_mkdir = True, sw_write_unit = True,
    sw_systemctl = (\<lambda>a. True), sw_config = \<lparr>readable = True, can_append = True, can_create = True\<rparr>,
    sw_config_answer = False, sw_profile = (\<lambda>_. AllOk), sw_shell_answer = False\<rparr>"
  have paths: "ssh_config_path (\<lambda>v. None) = ''/root/.ssh/config''"
    "binary_path (\<lambda>v. None) = ''/root/.cargo/bin/tassh''"
    "path_join (home_dir (\<lambda>v. None)) ` set profiles = {''/root/.zshrc'', ''/root/.zprofile'', ''/root/.bashrc''}"
    "path_join (unit_dir (\<lambda>v. None)) service_name = ''/root/.config/systemd/user/tassh-daemon.service''"
    by (simp_all add: ssh_config_path_def binary_path_def unit_dir_def service_name_def profiles_def
        home_dir_def path_join_def starts_with_def)
  obtain fs' where run: "run_setup_daemon w 9877 True [''/root/.cargo/bin/tassh'' \<mapsto> []] = (Inr (), fs')"
    and cfg: "fs' ''/root/.ssh/config'' = Some ssh_config_stanza"
    by (simp add: w_def run_setup_daemon_def run_systemctl_def setup_ssh_config_def paths Let_def
        setup_shell_snippets_def install_apply)
  from setup_rerun_changes_nothing [OF run] have "run_setup_daemon w 9877 True fs' = (Inr (), fs')"
    by (simp add: w_def)
  with cfg show ?thesis by (auto simp: w_def)
qed

text \<open>
  Key words of an SSH configuration do not depend on case, the search for \<^verbatim>\<open>LocalCommand\<close> does: a
  file with a \<^verbatim>\<open>localcommand\<close> of its own gets the hook appended all the same.
\<close>
theorem lower_case_local_command_overlooked:
  "fst (setup_ssh_config env \<lparr>readable = True, can_append = True, can_create = True\<rparr> True answer
     [ssh_config_path env \<mapsto> ''localcommand x'']) = Inr Appended"
  by (simp add: setup_ssh_config_def Let_def starts_with_def)

end
