(* ===== verification/Daemon_Invariants.thy ===== *)
theory Daemon_Invariants
  imports Daemon
begin

text \<open>
  The invariants of the daemon's concurrent core, over every interleaving of its tasks. The
  invariant \<open>daemon_inv\<close> ties the flags of a peer state to the tasks that own them; the
  session invariant \<open>sessions_inv\<close> ties the session count to the watched processes and their
  watchers, and needs that no \<open>Disconnect\<close> message is sent.
\<close>

section \<open>Tasks after a step\<close>

lemma move_sel [simp]:
  "peers (move t ts s) = peers s" "next_chan (move t ts s) = next_chan s"
  "tasks (move t ts s) = tasks s - {#t#} + ts"
  by (simp_all add: move_def)

lemma spawn_sel [simp]:
  "peers (spawn ts s) = peers s" "next_chan (spawn ts s) = next_chan s"
  "tasks (spawn ts s) = tasks s + ts"
  by (simp_all add: spawn_def)

lemma count_watchers:
  assumes "distinct is"
  shows "count (image_mset (Watching h) (mset is)) t =
    (case t of Watching k i \<Rightarrow> if k = h \<and> i \<in> set is then 1 else 0 | _ \<Rightarrow> 0)"
  using assms by (induction "is") (auto split: task.splits)

lemma do_connect_sel [simp]:
  "peers (do_connect h i s) = fst (connect_register h i (peers s))"
  "next_chan (do_connect h i s) = next_chan s"
  "tasks (do_connect h i s) = tasks s +
     (if i \<in> watched_pids (peer_at (peers s) h) then {#}
      else if connected (peer_at (peers s) h) then {#Watching h i#}
      else {#Watching h i, Claiming h#})"
  by (auto simp: do_connect_def case_prod_beta Let_def reg_simps)

lemma do_claim_sel [simp]:
  "peers (do_claim h s) = fst (connect_claim h (peers s))"
  "next_chan (do_claim h s) = next_chan s"
  "tasks (do_claim h s) = tasks s - {#Claiming h#} +
     (if connecting (peer_at (peers s) h) \<or> connected (peer_at (peers s) h) then {#}
      else {#Probe h#})"
  by (auto simp: do_claim_def case_prod_beta Let_def reg_simps)

lemma do_discover_sel [simp]:
  "peers (do_discover h is s) = fst (discover_register h is (peers s))"
  "next_chan (do_discover h is s) = next_chan s"
  "tasks (do_discover h is s) = tasks s - {#Discovering h is#} +
     (mset (map (Watching h) (snd (add_pids is (peer_at (peers s) h)))) +
      (if connecting (peer_at (peers s) h) \<or> connected (peer_at (peers s) h) then {#}
       else {#Probe h#}))"
  by (auto simp: do_discover_def case_prod_beta Let_def reg_simps)

lemma do_probed_sel [simp]:
  "peers (do_probed h found s) = (if found then peers s else probe_found_none h (peers s))"
  "next_chan (do_probed h found s) = next_chan s"
  "tasks (do_probed h found s) = tasks s - {#Probe h#} + (if found then {#Dial h#} else {#})"
  by (auto simp: do_probed_def)

lemma do_dialed_sel [simp]:
  "peers (do_dialed h ok s) =
     (if ok then fst (connection_established h (next_chan s) (peers s))
      else connection_refused h (peers s))"
  "next_chan (do_dialed h ok s) = (if ok then Suc (next_chan s) else next_chan s)"
  "tasks (do_dialed h ok s) = tasks s - {#Dial h#} +
     (if ok \<and> 0 < session_count (peer_at (peers s) h) then {#Conn h (next_chan s)#} else {#})"
  by (auto simp: do_dialed_def case_prod_beta Let_def reg_simps)

lemma do_refresh_clean_sel [simp]:
  "peers (do_refresh_clean cc h hs s) = refresh_idle h (peers s)"
  "next_chan (do_refresh_clean cc h hs s) = next_chan s"
  "tasks (do_refresh_clean cc h hs s) =
     tasks s - {#Refresh cc (CleanIdle (h # hs))#} + {#Refresh cc (CleanIdle hs)#}"
  by (simp_all add: do_refresh_clean_def)

lemma do_refresh_scan_sel [simp]:
  "peers (do_refresh_scan cc h hs js s) = peers s"
  "next_chan (do_refresh_scan cc h hs js s) = next_chan s"
  "tasks (do_refresh_scan cc h hs js s) = tasks s - {#Refresh cc (Scan (h # hs) js)#} +
     {#Refresh cc (Scan hs (case refresh_candidate cc h (peers s) of
            None \<Rightarrow> js | Some was \<Rightarrow> js @ [(h, was)]))#}"
  by (simp_all add: do_refresh_scan_def)

lemma do_refresh_join_sel [simp]:
  "peers (do_refresh_join cc js h was found s) =
     (if found then if was then peers s else fst (refresh_claim h (peers s))
      else refresh_unreachable h was (peers s))"
  "next_chan (do_refresh_join cc js h was found s) = next_chan s"
  "tasks (do_refresh_join cc js h was found s) = tasks s - {#Refresh cc (Scan [] js)#} +
     add_mset (Refresh cc (Scan [] (remove1 (h, was) js)))
       (if found \<and> \<not> was \<and> \<not> connecting (peer_at (peers s) h)
           \<and> \<not> connected (peer_at (peers s) h) \<and> 0 < session_count (peer_at (peers s) h)
        then {#Dial h#} else {#})"
  by (auto simp: do_refresh_join_def case_prod_beta Let_def reg_simps)

section \<open>Flags and the tasks that own them\<close>

text \<open>The tasks that hold the receiver of a close channel, and the connection attempts of a host.\<close>

definition holders :: "task multiset \<Rightarrow> hostname \<Rightarrow> chan \<Rightarrow> nat" where
  "holders T h c = count T (Conn h c) + count T (Closing h c)"

definition attempts :: "task multiset \<Rightarrow> hostname \<Rightarrow> nat" where
  "attempts T h = count T (Probe h) + count T (Dial h)"

text \<open>
  A peer state is in order: it is connected exactly when it holds a close sender, and then it has
  sessions and one task holds the receiver; an attempt is marked only while one is in progress; the
  inbound count is the number of receive loops; and no watcher handle is stored.
\<close>

definition peer_ok :: "task multiset \<Rightarrow> hostname \<Rightarrow> PeerState \<Rightarrow> bool" where
  "peer_ok T h p \<longleftrightarrow>
     (connected p \<longleftrightarrow> close_tx p \<noteq> None) \<and>
     (connected p \<longrightarrow> 0 < session_count p) \<and>
     (\<forall>c. close_tx p = Some c \<longrightarrow> holders T h c = 1) \<and>
     (connecting p \<longrightarrow> 0 < attempts T h) \<and>
     inbound_connections p = count T (Inbound h) \<and>
     pid_watcher_handles p = []"

text \<open>Close channels are numbered afresh, and one task at a time holds a receiver.\<close>

definition holders_ok :: "daemon \<Rightarrow> bool" where
  "holders_ok s \<longleftrightarrow> (\<forall>h c. holders (tasks s) h c \<le> 1 \<and>
     (0 < holders (tasks s) h c \<longrightarrow> c < next_chan s))"

definition daemon_inv :: "daemon \<Rightarrow> bool" where
  "daemon_inv s \<longleftrightarrow>
     wf_registry (peers s) \<and>
     (\<forall>h. peer_ok (tasks s) h (peer_at (peers s) h)) \<and>
     holders_ok s"

lemma daemon_inv_initial: "daemon_inv initial"
  by (simp add: daemon_inv_def initial_def peer_ok_def holders_ok_def holders_def attempts_def
      reg_simps wf_new_registry)

lemma daemon_step_wf: "daemon_step s e s' \<Longrightarrow> wf_registry (peers s) \<Longrightarrow> wf_registry (peers s')"
  by (induction rule: daemon_step.induct) auto

lemma count_watchers_other [simp]:
  "(\<And>i. t \<noteq> Watching h i) \<Longrightarrow> count (image_mset (Watching h) M) t = 0"
  by (induction M) auto

lemma holders_step_eq:
  assumes "daemon_step s e s'"
  shows "holders (tasks s') h c = holders (tasks s) h c
      + (if e = Dialed h True \<and> c = next_chan s \<and> 0 < session_count (peer_at (peers s) h) then 1 else 0)
      - (if e = CleanedUp h c then 1 else 0)"
  using assms
  by (induction rule: daemon_step.induct) (auto simp: holders_def simp flip: count_greater_zero_iff)

lemma next_chan_step:
  assumes "daemon_step s e s'"
  shows "next_chan s \<le> next_chan s'"
    and "e = Dialed h True \<Longrightarrow> next_chan s' = Suc (next_chan s)"
  using assms by (induction rule: daemon_step.induct) auto

lemma holders_step:
  assumes st: "daemon_step s e s'" and ok: "holders_ok s"
  shows "holders_ok s'"
  unfolding holders_ok_def
proof (intro allI)
  fix h c
  have old: "holders (tasks s) h c \<le> 1" "0 < holders (tasks s) h c \<Longrightarrow> c < next_chan s"
    using ok by (auto simp: holders_ok_def)
  show "holders (tasks s') h c \<le> 1 \<and> (0 < holders (tasks s') h c \<longrightarrow> c < next_chan s')"
  proof (cases "e = Dialed h True \<and> c = next_chan s")
    case True
    with old have "holders (tasks s) h c = 0" by (cases "holders (tasks s) h c") auto
    with True next_chan_step [OF st] show ?thesis by (simp add: holders_step_eq [OF st])
  next
    case False
    then have "holders (tasks s') h c \<le> holders (tasks s) h c"
      by (auto simp: holders_step_eq [OF st])
    with old next_chan_step(1) [OF st] show ?thesis by linarith
  qed
qed

lemma attempts_step_eq:
  assumes "daemon_step s e s'"
  shows "attempts (tasks s') h = attempts (tasks s) h
      + (if (e = Claimed h \<or> (\<exists>is. e = DiscoverSection h is))
            \<and> \<not> connecting (peer_at (peers s) h) \<and> \<not> connected (peer_at (peers s) h) then 1 else 0)
      + (if (\<exists>cc js. e = RefreshJoined cc js h False True) \<and> \<not> connecting (peer_at (peers s) h)
            \<and> \<not> connected (peer_at (peers s) h) \<and> 0 < session_count (peer_at (peers s) h)
         then 1 else 0)
      - (if e = Probed h False \<or> (\<exists>b. e = Dialed h b) then 1 else 0)"
  using assms
  by (induction rule: daemon_step.induct) (auto simp: attempts_def simp flip: count_greater_zero_iff)

lemma inbound_step_eq:
  assumes "daemon_step s e s'"
  shows "count (tasks s') (Inbound h) = count (tasks s) (Inbound h)
      + (if e = InboundOpened h then 1 else 0) - (if e = InboundClosed h then 1 else 0)"
  using assms
  by (induction rule: daemon_step.induct) (auto simp flip: count_greater_zero_iff)

lemma peer_exit_sel [simp]:
  "session_count (peer_exit i p) = session_count p - 1"
  "watched_pids (peer_exit i p) = watched_pids p - {i}"
  "connected (peer_exit i p) \<longleftrightarrow> connected p \<and> session_count p \<noteq> 0 \<and> session_count p \<noteq> 1"
  "connecting (peer_exit i p) = connecting p"
  "probe_failed (peer_exit i p) = probe_failed p"
  "close_tx (peer_exit i p) =
     (if session_count p = 0 \<or> session_count p = 1 then None else close_tx p)"
  "inbound_connections (peer_exit i p) = inbound_connections p"
  by (auto simp: peer_exit_def Let_def)

lemma peer_exit_handles: "pid_watcher_handles p = [] \<Longrightarrow> pid_watcher_handles (peer_exit i p) = []"
  by (simp add: peer_exit_def Let_def)

lemma peer_ok_step:
  assumes st: "daemon_step s e s'" and ok: "holders_ok s"
    and pk: "peer_ok (tasks s) k (peer_at (peers s) k)"
  shows "peer_ok (tasks s') k (peer_at (peers s') k)"
proof -
  have "holders (tasks s) k (next_chan s) = 0"
    using ok by (auto simp: holders_ok_def)
  with st pk show ?thesis
    unfolding peer_ok_def holders_step_eq [OF st] attempts_step_eq [OF st] inbound_step_eq [OF st]
    by (cases rule: daemon_step.cases)
      (auto simp: reg_simps handle_disconnect_def peer_at_unknown peer_exit_handles
        peer_established_def peer_unreachable_def Let_def simp flip: count_greater_zero_iff)
qed

lemma daemon_inv_step: "daemon_step s e s' \<Longrightarrow> daemon_inv s \<Longrightarrow> daemon_inv s'"
  unfolding daemon_inv_def by (blast intro: daemon_step_wf peer_ok_step holders_step)

lemma reachable_inv: "reachable A s \<Longrightarrow> daemon_inv s"
  by (induction rule: reachable.induct) (blast intro: daemon_inv_initial daemon_inv_step)+

lemma reachable_wf: "reachable A s \<Longrightarrow> wf_registry (peers s)"
  using reachable_inv by (auto simp: daemon_inv_def)

lemma reachable_peer_ok:
  "reachable A s \<Longrightarrow> peer_ok (tasks s) h (peer_at (peers s) h)"
  using reachable_inv by (auto simp: daemon_inv_def)

lemma reachable_entry_ok:
  "reachable A s \<Longrightarrow> get (peers s) h = Some p \<Longrightarrow> peer_ok (tasks s) h p"
  using reachable_peer_ok [of A s h] by (simp add: peer_at_get)

section \<open>Sessions\<close>

text \<open>
  The specification of the session bookkeeping: per host, the set of SSH processes that are alive
  as far as the daemon was told.
\<close>

definition live_sessions :: "daemon \<Rightarrow> hostname \<Rightarrow> pid set" where
  "live_sessions s h = watched_pids (peer_at (peers s) h)"

fun session_spec :: "event \<Rightarrow> (hostname \<Rightarrow> pid set) \<Rightarrow> hostname \<Rightarrow> pid set" where
  "session_spec (IpcConnect h i) L = L(h := insert i (L h))"
| "session_spec (DiscoverSection h is) L = L(h := L h \<union> set is)"
| "session_spec (PidExited h i) L = L(h := L h - {i})"
| "session_spec (IpcDisconnect h i) L = L(h := L h - {i})"
| "session_spec e L = L"

lemma live_sessions_step:
  assumes "daemon_step s e s'"
  shows "live_sessions s' = session_spec e (live_sessions s)"
  using assms
  by (cases rule: daemon_step.cases)
    (auto simp: fun_eq_iff live_sessions_def reg_simps handle_disconnect_def peer_at_unknown
      peer_established_def peer_unreachable_def Let_def)

text \<open>
  The count of a peer is the number of its watched processes, and each of these has exactly one
  watcher task.
\<close>

definition sessions_ok :: "task multiset \<Rightarrow> hostname \<Rightarrow> PeerState \<Rightarrow> bool" where
  "sessions_ok T h p \<longleftrightarrow> session_count p = card (watched_pids p)
     \<and> (\<forall>i. count T (Watching h i) = (if i \<in> watched_pids p then 1 else 0))"

lemma sessions_ok_watched:
  "sessions_ok T h p \<Longrightarrow> Watching h i \<in># T \<Longrightarrow> i \<in> watched_pids p"
  by (auto simp: sessions_ok_def simp flip: count_greater_zero_iff split: if_splits)

lemma sessions_step:
  assumes "daemon_step s e s'" and "no_disconnect e"
    and ok: "sessions_ok (tasks s) k (peer_at (peers s) k)"
  shows "sessions_ok (tasks s') k (peer_at (peers s') k)"
  using assms(1)
proof (cases rule: daemon_step.cases)
  case (pid_exited h i)
  show ?thesis
  proof (cases "k = h")
    case True
    with pid_exited ok have i: "i \<in> watched_pids (peer_at (peers s) h)"
      by (blast dest: sessions_ok_watched)
    then have "get (peers s) h \<noteq> None"
      by (cases "get (peers s) h") (simp_all add: peer_at_unknown)
    with True i pid_exited ok show ?thesis
      by (auto simp: sessions_ok_def reg_simps card_Diff_singleton)
  next
    case False
    with pid_exited ok show ?thesis by (simp add: sessions_ok_def reg_simps)
  qed
qed (use assms(2) ok in \<open>auto simp: sessions_ok_def reg_simps peer_at_unknown add_pids_card
    count_watchers peer_established_def peer_unreachable_def Let_def
    simp flip: count_greater_zero_iff\<close>)

lemma reachable_sessions:
  "reachable no_disconnect s \<Longrightarrow> sessions_ok (tasks s) h (peer_at (peers s) h)"
proof (induction rule: reachable.induct)
  case start
  show ?case by (simp add: sessions_ok_def initial_def reg_simps)
next
  case (step s e s')
  then show ?case by (blast intro: sessions_step)
qed

end
