(* ===== verification/Daemon_Properties.thy ===== *)
theory Daemon_Properties
  imports Daemon_Invariants
begin

text \<open>
  What the daemon's concurrent core guarantees over every interleaving, how it recovers and cleans
  up, and three runs in which it does not do what it is meant to. Runs are lists of events; the
  concrete runs below concern a single host.
\<close>

section \<open>Runs\<close>

inductive run :: "daemon \<Rightarrow> event list \<Rightarrow> daemon \<Rightarrow> bool" where
  run_nil: "run s [] s"
| run_cons: "daemon_step s e s1 \<Longrightarrow> run s1 es s' \<Longrightarrow> run s (e # es) s'"

inductive_simps run_nil_iff [simp]: "run s [] s'"
inductive_simps run_cons_iff: "run s (e # es) s'"

lemma reachable_run:
  "run s es s' \<Longrightarrow> reachable A s \<Longrightarrow> (\<forall>e \<in> set es. A e) \<Longrightarrow> reachable A s'"
  by (induction rule: run.induct) (auto intro: reachable.step)

lemma run_inv: "run s es s' \<Longrightarrow> daemon_inv s \<Longrightarrow> daemon_inv s'"
  by (induction rule: run.induct) (auto intro: daemon_inv_step)

text \<open>States with a single known host, on which the handlers evaluate.\<close>

definition one_host :: "hostname \<Rightarrow> PeerState \<Rightarrow> task multiset \<Rightarrow> chan \<Rightarrow> daemon" where
  "one_host h p T n = \<lparr>peers = [(h, p)], tasks = T, next_chan = n\<rparr>"

lemma one_host_sel [simp]:
  "peers (one_host h p T n) = [(h, p)]" "tasks (one_host h p T n) = T"
  "next_chan (one_host h p T n) = n"
  by (simp_all add: one_host_def)

lemma singleton_registry [simp]:
  "get [(h, p)] h = Some p" "peer_at [(h, p)] h = p" "modify h f [(h, p)] = [(h, f p)]"
  "get_or_create h [(h, p)] = [(h, p)]" "get [] h = None" "peer_at [] h = new_peer"
  "get_or_create h [] = [(h, new_peer)]"
  by (simp_all add: get_def peer_at_def modify_def get_or_create_def)

lemmas evaluate_steps =
  do_connect_def do_claim_def do_discover_def do_probed_def do_dialed_def do_refresh_clean_def
  do_refresh_scan_def do_refresh_join_def move_def spawn_def handler_defs one_host_def
  peer_register_def peer_exit_def peer_established_def peer_unreachable_def
  refresh_candidate_def hosts_with_sessions_def connected_hosts_without_sessions_def
  initial_def new_registry_def chan_open_def Let_def

text \<open>Runs are executed: the events are fired in order as long as each is enabled.\<close>

fun execs :: "event list \<Rightarrow> daemon \<Rightarrow> daemon option" where
  "execs [] s = Some s"
| "execs (e # es) s = (if enabled s e then execs es (fire e s) else None)"

lemma run_execs: "run s es s' \<longleftrightarrow> execs es s = Some s'"
  by (induction es arbitrary: s) (auto simp: run_cons_iff daemon_step_iff)

text \<open>A first session, a successful probe and a successful connect.\<close>

definition linked :: "pid set \<Rightarrow> chan \<Rightarrow> PeerState" where
  "linked I c = new_peer\<lparr>session_count := card I, watched_pids := I, connected := True,
     close_tx := Some c\<rparr>"

lemma connected_run:
  "run initial [IpcConnect h i, Claimed h, Probed h True, Dialed h True]
     (one_host h (linked {i} 0) {#Watching h i, Conn h 0#} 1)"
  by (simp add: run_execs evaluate_steps linked_def add_mset_commute)

lemma double_exit_run:
  assumes "i \<noteq> j"
  shows "run initial [IpcConnect h i, Claimed h, Probed h True, Dialed h True, IpcConnect h j,
      IpcDisconnect h i]
    (one_host h (linked {j} 0) {#Watching h i, Watching h j, Conn h 0#} 1)"
  using assms by (auto simp: run_execs evaluate_steps linked_def new_peer_def add_mset_commute)

lemma racing_attempts_run:
  assumes "i \<noteq> j" "i \<noteq> k" "j \<noteq> k"
  shows "run initial [IpcConnect h i, Claimed h, Probed h False,
      RefreshStarted False [], RefreshListed False [h], RefreshScanned False h [] [],
      IpcConnect h j, Claimed h, RefreshJoined False [(h, False)] h False False, Probed h True,
      IpcConnect h k, Claimed h, Probed h True, Dialed h True, Dialed h True]
    (one_host h (linked {i, j, k} 1)
      {#Watching h i, Watching h j, Watching h k, Refresh False (Scan [] []),
        Conn h 0, Conn h 1#} 2)"
  using assms by (auto simp: run_execs evaluate_steps linked_def new_peer_def add_mset_commute)

lemma stale_cleanup_run:
  "run initial [IpcConnect h i, Claimed h, Probed h True, Dialed h True,
      RefreshStarted True [], RefreshListed True [h], RefreshScanned True h [] [],
      RefreshJoined True [(h, True)] h True False, ConnEnded h 0 CloseSignal,
      RefreshStarted False [], RefreshListed False [h], RefreshScanned False h [] [],
      RefreshJoined False [(h, False)] h False True, Dialed h True]
    (one_host h (linked {i} 1) {#Watching h i, Refresh True (Scan [] []), Refresh False (Scan [] []),
        Closing h 0, Conn h 1#} 2)"
  by (simp add: run_execs evaluate_steps linked_def add_mset_commute)

lemma reachable_connected:
  "reachable no_disconnect (one_host h (linked {i} 0) {#Watching h i, Conn h 0#} 1)"
  by (rule reachable_run [OF connected_run reachable.start]) simp

section \<open>Draining a host\<close>

text \<open>How many steps the connection tasks of a host are away from being gone.\<close>

fun task_weight :: "hostname \<Rightarrow> task \<Rightarrow> nat" where
  "task_weight h (Conn k c) = (if k = h then 2 else 0)"
| "task_weight h (Closing k c) = (if k = h then 1 else 0)"
| "task_weight h t = 0"

definition drain_weight :: "hostname \<Rightarrow> daemon \<Rightarrow> nat" where
  "drain_weight h s = (\<Sum>t \<in># tasks s. task_weight h t)"

lemma weight_move:
  "t \<in># tasks s \<Longrightarrow>
     drain_weight h (move t ts s) + task_weight h t = drain_weight h s + (\<Sum>u \<in># ts. task_weight h u)"
  by (auto simp: drain_weight_def dest: multi_member_split)

lemma drain_weight_peers [simp]: "drain_weight h (s\<lparr>peers := r\<rparr>) = drain_weight h s"
  by (simp add: drain_weight_def)

lemma drain_weight_0: "drain_weight h s = 0 \<Longrightarrow> holders (tasks s) h c = 0"
  by (force simp: drain_weight_def holders_def count_eq_zero_iff)

lemma drain_weight_pos:
  assumes "0 < drain_weight h s"
  obtains c where "Conn h c \<in># tasks s" | c where "Closing h c \<in># tasks s"
proof -
  from assms have "drain_weight h s \<noteq> 0" by simp
  then obtain t where "t \<in># tasks s" "task_weight h t \<noteq> 0"
    by (auto simp: drain_weight_def simp del: neq0_conv)
  with that show ?thesis by (cases t) (auto split: if_splits)
qed

lemma drain_weight_le: "drain_weight h s \<le> 2 * size (tasks s)"
proof -
  have w: "task_weight h t \<le> 2" for t by (cases t) auto
  have "(\<Sum>t \<in># M. task_weight h t) \<le> 2 * size M" for M
  proof (induction M)
    case (add t M)
    then show ?case using w [of t] by simp
  qed simp
  then show ?thesis by (simp add: drain_weight_def)
qed

text \<open>The events of a host's connection tasks being told to close and cleaning up.\<close>

definition closes :: "hostname \<Rightarrow> event \<Rightarrow> bool" where
  "closes h e \<longleftrightarrow> (\<exists>c. e = ConnEnded h c CloseSignal \<or> e = CleanedUp h c)"

lemma drain_step:
  assumes inv: "daemon_inv s" and idle: "session_count (peer_at (peers s) h) = 0"
    and pos: "0 < drain_weight h s"
  shows "\<exists>e s'. daemon_step s e s' \<and> closes h e \<and> session_count (peer_at (peers s') h) = 0
    \<and> drain_weight h s' < drain_weight h s"
proof -
  have noconn: "\<not> chan_open s h c" for c
    using inv idle by (auto simp: daemon_inv_def peer_ok_def chan_open_def)
  from pos show ?thesis
  proof (cases rule: drain_weight_pos)
    case (1 c)
    then have "daemon_step s (ConnEnded h c CloseSignal) (move (Conn h c) {#Closing h c#} s)"
      using noconn by (blast intro: daemon_step.conn_ended)
    moreover have "drain_weight h (move (Conn h c) {#Closing h c#} s) < drain_weight h s"
      using weight_move [OF 1, of h "{#Closing h c#}"] by simp
    ultimately show ?thesis
      using idle by (intro exI conjI) (auto simp: closes_def)
  next
    case (2 c)
    let ?s' = "move (Closing h c) {#} (s\<lparr>peers := connection_ended h (peers s)\<rparr>)"
    have "daemon_step s (CleanedUp h c) ?s'"
      using 2 by (rule daemon_step.cleaned_up)
    moreover have "drain_weight h ?s' < drain_weight h s"
      using weight_move [of "Closing h c" "s\<lparr>peers := connection_ended h (peers s)\<rparr>" h "{#}"] 2 by simp
    ultimately show ?thesis
      using idle by (intro exI [of _ "CleanedUp h c"] exI [of _ ?s']) (simp add: closes_def reg_simps)
  qed
qed

lemma drain_run:
  assumes "daemon_inv s" and "session_count (peer_at (peers s) h) = 0"
  shows "\<exists>es s'. run s es s' \<and> list_all (closes h) es \<and> length es \<le> drain_weight h s
    \<and> daemon_inv s' \<and> drain_weight h s' = 0 \<and> session_count (peer_at (peers s') h) = 0"
  using assms
proof (induction "drain_weight h s" arbitrary: s rule: less_induct)
  case less
  show ?case
  proof (cases "drain_weight h s = 0")
    case True
    with less.prems show ?thesis by (intro exI [of _ "[]"] exI [of _ s]) simp
  next
    case False
    then obtain e s1 where e: "daemon_step s e s1" "closes h e"
      "session_count (peer_at (peers s1) h) = 0" "drain_weight h s1 < drain_weight h s"
      using drain_step [OF less.prems] by auto
    with less.hyps [of s1] daemon_inv_step [OF e(1) less.prems(1)] obtain es s' where
      "run s1 es s'" "list_all (closes h) es" "length es \<le> drain_weight h s1" "daemon_inv s'"
      "drain_weight h s' = 0" "session_count (peer_at (peers s') h) = 0"
      by blast
    with e show ?thesis
      by (intro exI [of _ "e # es"] exI [of _ s']) (auto intro: run.intros)
  qed
qed

section \<open>Reconnecting a host\<close>

lemma idle_hosts_none:
  assumes "daemon_inv s"
  shows "connected_hosts_without_sessions (peers s) = []"
proof -
  have "\<not> (connected p \<and> session_count p = 0)" if "get (peers s) h = Some p" for h p
    using assms that by (auto simp: daemon_inv_def peer_ok_def peer_at_def dest: spec [of _ h])
  then have "set (connected_hosts_without_sessions (peers s)) = {}"
    using assms by (auto simp: daemon_inv_def set_connected_hosts_without_sessions)
  then show ?thesis by simp
qed

text \<open>So the clean-up list of a refresh in progress is empty.\<close>

definition nothing_to_clean :: "daemon \<Rightarrow> bool" where
  "nothing_to_clean s \<longleftrightarrow> (\<forall>cc hs. Refresh cc (CleanIdle hs) \<in># tasks s \<longrightarrow> hs = [])"

lemma nothing_to_clean_step:
  assumes "daemon_step s e s'" and "daemon_inv s" and "nothing_to_clean s"
  shows "nothing_to_clean s'"
  using assms(1)
proof (cases rule: daemon_step.cases)
  case (refresh_start hs cc)
  with assms(3) idle_hosts_none [OF assms(2)] show ?thesis by (auto simp: nothing_to_clean_def)
next
  case (refresh_clean cc h hs)
  with assms(3) show ?thesis by (auto simp: nothing_to_clean_def)
qed (use assms(3) in \<open>auto simp: nothing_to_clean_def do_connect_def do_claim_def do_discover_def do_probed_def
  do_dialed_def do_refresh_scan_def do_refresh_join_def Let_def case_prod_beta
  dest!: in_diffD split: if_splits option.splits\<close>)

text \<open>The events that go wrong for a host: its sessions end, an attempt or a connection fails.\<close>

fun goes_wrong :: "hostname \<Rightarrow> event \<Rightarrow> bool" where
  "goes_wrong h (IpcDisconnect k i) = (k = h)"
| "goes_wrong h (PidExited k i) = (k = h)"
| "goes_wrong h (Probed k found) = (k = h \<and> \<not> found)"
| "goes_wrong h (Dialed k ok) = (k = h \<and> \<not> ok)"
| "goes_wrong h (ConnEnded k c why) = (k = h)"
| "goes_wrong h (CleanedUp k c) = (k = h)"
| "goes_wrong h (RefreshJoined cc js k was found) = (k = h \<and> \<not> found)"
| "goes_wrong h (RefreshJobFailed cc js k was) = (k = h)"
| "goes_wrong h e = False"

text \<open>A refresh has still to look at a host: it will list it, scan it, or join its probe.\<close>

fun will_join :: "hostname \<Rightarrow> refresh_pc \<Rightarrow> bool" where
  "will_join h (CleanIdle hs) = True"
| "will_join h (Scan hs js) = (h \<in> set hs \<or> (h, False) \<in> set js)"

definition attended :: "hostname \<Rightarrow> daemon \<Rightarrow> bool" where
  "attended h s \<longleftrightarrow> connected (peer_at (peers s) h) \<or> connecting (peer_at (peers s) h)"

definition awaited_by_refresh :: "hostname \<Rightarrow> daemon \<Rightarrow> bool" where
  "awaited_by_refresh h s \<longleftrightarrow> (\<exists>pc. Refresh False pc \<in># tasks s \<and> will_join h pc)"


lemma sessions_kept:
  assumes "daemon_step s e s'" and "\<not> goes_wrong h e" and "0 < session_count (peer_at (peers s) h)"
  shows "0 < session_count (peer_at (peers s') h)"
  using assms
  by (cases rule: daemon_step.cases)
    (auto simp: reg_simps peer_established_def peer_unreachable_def handle_disconnect_def Let_def)

lemma attended_step:
  assumes "daemon_step s e s'" and "\<not> goes_wrong h e" and "nothing_to_clean s"
    and "0 < session_count (peer_at (peers s) h)" and "attended h s"
  shows "attended h s'"
  using assms
  by (cases rule: daemon_step.cases)
    (auto simp: attended_def reg_simps peer_established_def peer_unreachable_def handle_disconnect_def
      Let_def nothing_to_clean_def)

lemma awaited_kept: "awaited_by_refresh h s \<Longrightarrow> tasks s \<subseteq># tasks s' \<Longrightarrow> awaited_by_refresh h s'"
  unfolding awaited_by_refresh_def by (meson mset_subset_eqD)

lemma awaited_other:
  assumes "awaited_by_refresh h s" and "tasks s' = tasks s - {#t#} + T"
    and "\<And>pc. t = Refresh False pc \<Longrightarrow> \<not> will_join h pc"
  shows "awaited_by_refresh h s'"
proof -
  from assms(1) obtain pc where pc: "Refresh False pc \<in># tasks s" "will_join h pc"
    unfolding awaited_by_refresh_def by blast
  with assms(3) have "t \<noteq> Refresh False pc" by blast
  with pc(1) have "Refresh False pc \<in># tasks s - {#t#}" by (simp add: in_diff_count)
  then have "Refresh False pc \<in># tasks s'" by (simp add: assms(2))
  with pc(2) show ?thesis unfolding awaited_by_refresh_def by blast
qed

lemma awaited_moved:
  assumes "awaited_by_refresh h s" and "tasks s' = tasks s - {#Refresh cc pc#} + add_mset (Refresh cc pc') T"
    and "will_join h pc \<Longrightarrow> will_join h pc'"
  shows "awaited_by_refresh h s'"
proof (cases "cc \<or> \<not> will_join h pc")
  case True
  then show ?thesis by (intro awaited_other [OF assms(1,2)]) auto
next
  case False
  with assms(2,3) show ?thesis by (auto simp: awaited_by_refresh_def)
qed

lemma awaited_step:
  assumes step: "daemon_step s e s'" and fine: "\<not> goes_wrong h e" and inv: "daemon_inv s"
    and sess: "0 < session_count (peer_at (peers s) h)"
    and aw: "awaited_by_refresh h s" and off: "\<not> attended h s"
  shows "awaited_by_refresh h s' \<or> attended h s'"
proof -
  obtain p where p: "get (peers s) h = Some p"
    using sess by (cases "get (peers s) h") (auto simp: peer_at_unknown)
  show ?thesis
    using step
  proof (cases rule: daemon_step.cases)
    case (refresh_clean cc k hs)
    have "awaited_by_refresh h s'"
      by (rule awaited_moved [OF aw, of _ cc "CleanIdle (k # hs)" "CleanIdle hs" "{#}"])
        (simp_all add: refresh_clean(2))
    then show ?thesis ..
  next
    case (refresh_list cc hs)
    have "h \<in> set (hosts_with_sessions (peers s))"
      using inv p sess by (auto simp: daemon_inv_def set_hosts_with_sessions peer_at_get)
    then have "h \<in> set hs" using refresh_list(4) mset_eq_setD by blast
    then have "awaited_by_refresh h s'"
      by (intro awaited_moved [OF aw, of _ cc "CleanIdle []" "Scan hs []" "{#}"])
        (simp_all add: refresh_list(2))
    then show ?thesis ..
  next
    case (refresh_scan cc k hs js)
    let ?js = "case refresh_candidate cc k (peers s) of None \<Rightarrow> js | Some was \<Rightarrow> js @ [(k, was)]"
    have "will_join h (Scan hs ?js)" if "will_join h (Scan (k # hs) js)"
      using that p off by (auto simp: refresh_candidate_def attended_def peer_at_get split: option.splits)
    then have "awaited_by_refresh h s'"
      by (intro awaited_moved [OF aw, of _ cc "Scan (k # hs) js" "Scan hs ?js" "{#}"])
        (simp_all add: refresh_scan(2))
    then show ?thesis ..
  next
    case (refresh_join cc js k was found)
    show ?thesis
    proof (cases "(k, was) = (h, False)")
      case True
      with fine refresh_join(1) have "found" by simp
      with True sess off have "attended h s'"
        by (auto simp: refresh_join(2) attended_def reg_simps)
      then show ?thesis ..
    next
      case False
      let ?js = "remove1 (k, was) js"
      have keep: "will_join h (Scan [] js) \<Longrightarrow> will_join h (Scan [] ?js)"
        using False by (simp add: in_set_remove1)
      obtain T where "tasks s' = tasks s - {#Refresh cc (Scan [] js)#} + add_mset (Refresh cc (Scan [] ?js)) T"
        unfolding refresh_join(2) do_refresh_join_def Let_def case_prod_beta
        by (cases found; cases was; cases "snd (refresh_claim k (peers s))") auto
      from awaited_moved [OF aw this keep] show ?thesis ..
    qed
  next
    case (refresh_job_failed cc js k was)
    with fine have "k \<noteq> h" by simp
    then have "awaited_by_refresh h s'"
      by (intro awaited_moved [OF aw, of _ cc "Scan [] js" "Scan [] (remove1 (k, was) js)" "{#}"])
        (simp_all add: refresh_job_failed(2) in_set_remove1)
    then show ?thesis ..
  next
    case (refresh_done cc infos)
    have "awaited_by_refresh h s'"
      by (rule awaited_other [OF aw, of _ "Refresh cc (Scan [] [])" "{#}"]) (auto simp: refresh_done(2))
    then show ?thesis ..
  next
    case (ipc_connect k i)
    have "awaited_by_refresh h s'" by (rule awaited_kept [OF aw]) (simp add: ipc_connect(2))
    then show ?thesis ..
  next
    case (claim k)
    then have "awaited_by_refresh h s'" by (auto intro!: awaited_other [OF aw do_claim_sel(3)])
    then show ?thesis ..
  next
    case (pid_exited k i)
    then have "tasks s' = tasks s - {#Watching k i#} + {#}" by simp
    from awaited_other [OF aw this] show ?thesis by simp
  next
    case (discover_section k "is")
    then have "awaited_by_refresh h s'" by (auto intro!: awaited_other [OF aw do_discover_sel(3)])
    then show ?thesis ..
  next
    case (probed k found)
    then have "awaited_by_refresh h s'" by (auto intro!: awaited_other [OF aw do_probed_sel(3)])
    then show ?thesis ..
  next
    case (dialed k ok)
    then have "awaited_by_refresh h s'" by (auto intro!: awaited_other [OF aw do_dialed_sel(3)])
    then show ?thesis ..
  next
    case (conn_ended k c why)
    then have "tasks s' = tasks s - {#Conn k c#} + {#Closing k c#}" by simp
    from awaited_other [OF aw this] show ?thesis by simp
  next
    case (cleaned_up k c)
    then have "tasks s' = tasks s - {#Closing k c#} + {#}" by simp
    from awaited_other [OF aw this] show ?thesis by simp
  next
    case (inbound_close k)
    then have "tasks s' = tasks s - {#Inbound k#} + {#}" by simp
    from awaited_other [OF aw this] show ?thesis by simp
  qed (auto intro!: disjI1 awaited_kept [OF aw])
qed

lemma reachable_nothing_to_clean: "reachable A s \<Longrightarrow> nothing_to_clean s"
proof (induction rule: reachable.induct)
  case start
  show ?case by (simp add: nothing_to_clean_def initial_def)
next
  case (step s e s')
  then show ?case by (blast intro: nothing_to_clean_step reachable_inv)
qed

lemma refresh_awaits:
  assumes "daemon_step s (RefreshStarted False hs) s'"
  shows "awaited_by_refresh h s'"
  using assms by (auto simp: daemon_step_iff awaited_by_refresh_def intro!: exI [of _ "CleanIdle hs"])

text \<open>
  Once a tick of the reconcile loop is under way, each step on which nothing goes wrong for the host
  leaves it attended, or with a tick that has still to look at it.
\<close>

lemma heal_kept:
  assumes "run s es s'" and "list_all (\<lambda>e. \<not> goes_wrong h e) es"
    and "daemon_inv s" and "nothing_to_clean s" and "0 < session_count (peer_at (peers s) h)"
    and "attended h s \<or> awaited_by_refresh h s"
  shows "attended h s' \<or> awaited_by_refresh h s'"
  using assms
proof (induction rule: run.induct)
  case (run_cons s e s1 es s')
  from run_cons.prems have e: "\<not> goes_wrong h e" by simp
  have "attended h s1 \<or> awaited_by_refresh h s1"
    using attended_step [OF run_cons.hyps(1) e] awaited_step [OF run_cons.hyps(1) e] run_cons.prems(2-)
    by blast
  moreover have "daemon_inv s1" "nothing_to_clean s1" "0 < session_count (peer_at (peers s1) h)"
    using daemon_inv_step [OF run_cons.hyps(1)] nothing_to_clean_step [OF run_cons.hyps(1)]
      sessions_kept [OF run_cons.hyps(1) e] run_cons.prems(2-)
    by blast+
  ultimately show ?case using run_cons.IH run_cons.prems(1) by simp
qed simp

lemma heal_run:
  assumes "run s es s'" and "list_all (\<lambda>e. \<not> goes_wrong h e) es"
    and "daemon_inv s" and "nothing_to_clean s" and "0 < session_count (peer_at (peers s) h)"
  shows "0 < session_count (peer_at (peers s') h)
    \<and> (list_ex (\<lambda>e. \<exists>hs. e = RefreshStarted False hs) es \<longrightarrow> attended h s' \<or> awaited_by_refresh h s')"
  using assms
proof (induction rule: run.induct)
  case (run_cons s e s1 es s')
  from run_cons.prems have e: "\<not> goes_wrong h e" by simp
  have inv: "daemon_inv s1" "nothing_to_clean s1" "0 < session_count (peer_at (peers s1) h)"
    using daemon_inv_step [OF run_cons.hyps(1)] nothing_to_clean_step [OF run_cons.hyps(1)]
      sessions_kept [OF run_cons.hyps(1) e] run_cons.prems(2-)
    by blast+
  have "attended h s' \<or> awaited_by_refresh h s'" if "e = RefreshStarted False hs" for hs
    using heal_kept [OF run_cons.hyps(2) _ inv] refresh_awaits run_cons.hyps(1) run_cons.prems(1) that
    by simp
  with run_cons.IH [OF _ inv] run_cons.prems(1) show ?case by auto
qed simp

section \<open>Properties\<close>

text \<open>
  C11. As long as no \<open>Disconnect\<close> message is sent, every host's session count is the number of
  the SSH processes it watches, and every watched process has exactly one watcher task (and no
  other process has one), in every reachable state.
\<close>

theorem session_accounting:
  assumes "reachable no_disconnect s" and "get (peers s) h = Some p"
  shows "session_count p = card (watched_pids p)
    \<and> (\<forall>i. count (tasks s) (Watching h i) = (if i \<in> watched_pids p then 1 else 0))"
  using reachable_sessions [OF assms(1), of h] assms(2) by (simp add: sessions_ok_def peer_at_get)

theorem session_accounting_witness:
  "session_count (linked {7} 0) = card {7 :: pid}
    \<and> count {#Watching ''a'' 7, Conn ''a'' 0#} (Watching ''a'' 7) = 1"
  using session_accounting [OF reachable_connected [of "''a''" 7], of "''a''" "linked {7} 0"]
  by (simp add: linked_def)

text \<open>
  C13. The registry implements the specification of the session bookkeeping: each step changes
  the set of live sessions of each host as the specification says, and in runs without
  \<open>Disconnect\<close> the hosts the daemon takes to have sessions are exactly those whose set is not
  empty.
\<close>

theorem sessions_refine_spec:
  assumes "reachable no_disconnect s" and "daemon_step s e s'"
  shows "live_sessions s' = session_spec e (live_sessions s)
    \<and> set (hosts_with_sessions (peers s)) = {h. live_sessions s h \<noteq> {}}"
proof
  show "live_sessions s' = session_spec e (live_sessions s)"
    using assms(2) by (rule live_sessions_step)
  have "0 < session_count (peer_at (peers s) h) \<longleftrightarrow> live_sessions s h \<noteq> {}" for h
    using reachable_sessions [OF assms(1), of h]
    by (simp add: sessions_ok_def live_sessions_def card_gt_0_iff)
  then show "set (hosts_with_sessions (peers s)) = {h. live_sessions s h \<noteq> {}}"
    by (force simp: set_hosts_with_sessions [OF reachable_wf [OF assms(1)]] peer_at_def
        split: option.splits)
qed

theorem sessions_refine_spec_witness:
  "\<exists>s s'. daemon_step s (IpcConnect ''a'' 8) s' \<and> live_sessions s ''a'' = {7}
    \<and> live_sessions s' ''a'' = {7, 8} \<and> set (hosts_with_sessions (peers s)) = {''a''}"
proof -
  let ?s = "one_host ''a'' (linked {7} 0) {#Watching ''a'' 7, Conn ''a'' 0#} 1"
  have live: "live_sessions ?s h = (if h = ''a'' then {7} else {})" for h
    by (auto simp: live_sessions_def linked_def peer_at_def get_def)
  from sessions_refine_spec [OF reachable_connected daemon_step.ipc_connect [of ?s "''a''" 8]] live
  show ?thesis using daemon_step.ipc_connect [of ?s "''a''" 8] by fastforce
qed

text \<open>
  C12. In every reachable state, a host marked connected has SSH sessions, holds the sender of a
  close channel, and exactly one connection task holds the receiver of that channel.
\<close>

theorem connected_is_owned:
  assumes "reachable any_event s" and "get (peers s) h = Some p" and "connected p"
  shows "0 < session_count p
    \<and> (\<exists>c. close_tx p = Some c \<and> count (tasks s) (Conn h c) + count (tasks s) (Closing h c) = 1)"
  using reachable_entry_ok [OF assms(1,2)] assms(3) by (auto simp: peer_ok_def holders_def)

theorem connected_is_owned_witness:
  "0 < session_count (linked {7} 0) \<and> (\<exists>c. close_tx (linked {7} 0) = Some c)"
proof -
  have "reachable any_event (one_host ''a'' (linked {7} 0) {#Watching ''a'' 7, Conn ''a'' 0#} 1)"
    by (rule reachable_run [OF connected_run reachable.start]) simp
  from connected_is_owned [OF this, of "''a''" "linked {7} 0"] show ?thesis
    by (auto simp: linked_def)
qed

text \<open>
  The clean-up of connected hosts without sessions, with which a refresh begins, never finds
  one: whatever the interleaving, the list it walks is empty.
\<close>

theorem idle_cleanup_finds_nothing:
  assumes "reachable any_event s"
  shows "connected_hosts_without_sessions (peers s) = []"
  by (rule idle_hosts_none) (rule reachable_inv [OF assms])

text \<open>
  C17. The flag \<open>connecting\<close> is never stuck: while it is set, a probe or a connect for that host
  is in progress. Whatever a probe in progress finds, its end is a possible step, which goes on to a
  connect or clears the flag; and whether a connect in progress succeeds or fails, its end is a
  possible step, which clears the flag.
\<close>

theorem connecting_never_stuck:
  assumes "reachable any_event s" and "get (peers s) h = Some p" and "connecting p"
  shows "(Probe h \<in># tasks s \<or> Dial h \<in># tasks s)
    \<and> (Probe h \<in># tasks s \<longrightarrow> (\<forall>found. \<exists>s'. daemon_step s (Probed h found) s'
         \<and> (if found then Dial h \<in># tasks s' else \<not> connecting (peer_at (peers s') h))))
    \<and> (Dial h \<in># tasks s \<longrightarrow> (\<forall>ok. \<exists>s'. daemon_step s (Dialed h ok) s'
         \<and> \<not> connecting (peer_at (peers s') h)))"
proof -
  have "Probe h \<in># tasks s \<or> Dial h \<in># tasks s"
    using reachable_entry_ok [OF assms(1,2)] assms(3)
    by (auto simp: peer_ok_def attempts_def)
  moreover have "daemon_step s (Probed h found) (do_probed h found s)
      \<and> (if found then Dial h \<in># tasks (do_probed h found s)
         else \<not> connecting (peer_at (peers (do_probed h found s)) h))" if "Probe h \<in># tasks s" for found
    using that assms(2) by (auto simp: daemon_step_iff reg_simps)
  moreover have "daemon_step s (Dialed h ok) (do_dialed h ok s)
      \<and> \<not> connecting (peer_at (peers (do_dialed h ok s)) h)" if "Dial h \<in># tasks s" for ok
    using that assms(2) by (auto simp: daemon_step_iff reg_simps peer_established_def)
  ultimately show ?thesis by blast
qed

theorem connecting_never_stuck_witness:
  "\<exists>s s' p. reachable any_event s \<and> get (peers s) ''a'' = Some p \<and> connecting p
    \<and> daemon_step s (Dialed ''a'' False) s' \<and> \<not> connecting (peer_at (peers s') ''a'')"
proof -
  let ?p = "new_peer\<lparr>session_count := 1, watched_pids := {7}, connecting := True\<rparr>"
  let ?s = "one_host ''a'' ?p {#Watching ''a'' 7, Dial ''a''#} 0"
  have "run initial [IpcConnect ''a'' 7, Claimed ''a'', Probed ''a'' True] ?s"
    by (simp add: run_execs evaluate_steps add_mset_commute)
  then have r: "reachable any_event ?s"
    by (rule reachable_run) (auto intro: reachable.start)
  from connecting_never_stuck [OF r, of "''a''" ?p] obtain s' where
    "daemon_step ?s (Dialed ''a'' False) s'" "\<not> connecting (peer_at (peers s') ''a'')"
    by auto
  with r show ?thesis by (intro exI [of _ ?s] exI [of _ s'] exI [of _ ?p]) simp
qed

text \<open>
  C26. The inbound count of every host is the number of receive loops that run for it, in every
  reachable state, so that its saturating decrement never saturates.
\<close>

theorem inbound_accounting:
  assumes "reachable any_event s"
  shows "inbound_connections (peer_at (peers s) h) = count (tasks s) (Inbound h)
    \<and> (Inbound h \<in># tasks s \<longrightarrow> 0 < inbound_connections (peer_at (peers s) h))"
  using reachable_peer_ok [OF assms, of h] by (simp add: peer_ok_def)

theorem inbound_accounting_witness:
  "\<exists>s. reachable any_event s \<and> inbound_connections (peer_at (peers s) ''b'') = 2
    \<and> count (tasks s) (Inbound ''b'') = 2"
proof -
  let ?s = "fire (InboundOpened ''b'') (fire (InboundOpened ''b'') initial)"
  have "run initial [InboundOpened ''b'', InboundOpened ''b''] ?s"
    by (simp add: run_execs)
  then have r: "reachable any_event ?s"
    by (rule reachable_run) (auto intro: reachable.start)
  moreover have "count (tasks ?s) (Inbound ''b'') = 2" by (simp add: initial_def)
  ultimately show ?thesis using inbound_accounting [OF r, of "''b''"] by auto
qed

text \<open>
  C19. Once a host has no SSH session left, its connections go away: from every reachable state in
  which its session count is zero, telling the remaining connection tasks to close and letting them
  clean up is possible, takes at most two steps per task, and leaves no connection task of that
  host and the host not connected.
\<close>

theorem idle_host_drains:
  assumes "reachable any_event s" and "session_count (peer_at (peers s) h) = 0"
  shows "\<exists>es s'. run s es s' \<and> list_all (closes h) es \<and> length es \<le> 2 * size (tasks s)
    \<and> (\<forall>c. Conn h c \<notin># tasks s' \<and> Closing h c \<notin># tasks s')
    \<and> \<not> connected (peer_at (peers s') h)"
proof -
  obtain es s' where r: "run s es s'" "list_all (closes h) es" "length es \<le> drain_weight h s"
    and end0: "daemon_inv s'" "drain_weight h s' = 0" "session_count (peer_at (peers s') h) = 0"
    using drain_run [OF reachable_inv [OF assms(1)] assms(2)] by blast
  have "drain_weight h s \<le> 2 * size (tasks s)"
    by (rule drain_weight_le)
  with r(3) have "length es \<le> 2 * size (tasks s)" by simp
  moreover have "\<forall>c. Conn h c \<notin># tasks s' \<and> Closing h c \<notin># tasks s'"
    using drain_weight_0 [OF end0(2)] by (simp add: holders_def count_eq_zero_iff)
  moreover have "\<not> connected (peer_at (peers s') h)"
    using end0(1,3) by (auto simp: daemon_inv_def peer_ok_def)
  ultimately show ?thesis using r(1,2) by blast
qed

theorem idle_host_drains_witness:
  "\<exists>s es s'. reachable any_event s \<and> Conn ''a'' 0 \<in># tasks s
    \<and> run s es s' \<and> list_all (closes ''a'') es \<and> Conn ''a'' 0 \<notin># tasks s'"
proof -
  let ?s = "one_host ''a'' new_peer {#Conn ''a'' 0#} 1"
  have "run initial [IpcConnect ''a'' 7, Claimed ''a'', Probed ''a'' True, Dialed ''a'' True,
      PidExited ''a'' 7] ?s"
    by (simp add: run_execs evaluate_steps new_peer_def add_mset_commute)
  then have r: "reachable any_event ?s"
    by (rule reachable_run) (auto intro: reachable.start)
  from idle_host_drains [OF r, of "''a''"] obtain es s' where
    "run ?s es s'" "list_all (closes ''a'') es" "Conn ''a'' 0 \<notin># tasks s'"
    by auto
  with r show ?thesis by (intro exI [of _ ?s] exI [of _ es] exI [of _ s']) simp
qed

text \<open>
  C18. The reconcile loop heals every host it looks at. In any run that contains the start of one of
  its ticks, if the host has SSH sessions at the beginning and nothing goes wrong for it during the
  run (none of its sessions ends, no probe or connect of it fails, no connection of it ends), then
  once no tick is in progress any more the host is connected or a connection attempt for it, a probe
  or a connect, is in progress: whatever the order in which the tick scans the hosts, whatever
  happens to the other hosts, and whatever other tasks do in between.
\<close>

theorem reconcile_reconnects:
  assumes "reachable any_event s" and "0 < session_count (peer_at (peers s) h)"
    and "run s es s'" and "list_ex (\<lambda>e. \<exists>hs. e = RefreshStarted False hs) es"
    and "list_all (\<lambda>e. \<not> goes_wrong h e) es"
    and "\<forall>pc. Refresh False pc \<notin># tasks s'"
  shows "0 < session_count (peer_at (peers s') h)
    \<and> (connected (peer_at (peers s') h) \<or> Probe h \<in># tasks s' \<or> Dial h \<in># tasks s')"
proof -
  have fine: "daemon_inv s" "nothing_to_clean s"
    using assms(1) by (rule reachable_inv, rule reachable_nothing_to_clean)
  from heal_run [OF assms(3,5) fine assms(2)] assms(4,6)
  have att: "attended h s'" and sess: "0 < session_count (peer_at (peers s') h)"
    by (auto simp: awaited_by_refresh_def)
  from sess obtain p where p: "get (peers s') h = Some p"
    by (cases "get (peers s') h") (auto simp: peer_at_unknown)
  from run_inv [OF assms(3) fine(1)] p have "peer_ok (tasks s') h p"
    by (metis daemon_inv_def peer_at_get)
  with att sess p show ?thesis
    by (auto simp: attended_def peer_ok_def attempts_def peer_at_get)
qed

theorem reconcile_reconnects_witness:
  "\<exists>s es s'. reachable any_event s \<and> probe_failed (peer_at (peers s) ''a'') \<and> run s es s'
    \<and> \<not> connected (peer_at (peers s) ''a'') \<and> \<not> connecting (peer_at (peers s) ''a'')
    \<and> (connected (peer_at (peers s') ''a'') \<or> Probe ''a'' \<in># tasks s' \<or> Dial ''a'' \<in># tasks s')"
proof -
  let ?p = "new_peer\<lparr>session_count := 1, watched_pids := {7}, probe_failed := True\<rparr>"
  let ?s = "one_host ''a'' ?p {#Watching ''a'' 7#} 0"
  have "run initial [IpcConnect ''a'' 7, Claimed ''a'', Probed ''a'' False] ?s"
    by (simp add: run_execs evaluate_steps new_peer_def add_mset_commute)
  then have r: "reachable any_event ?s"
    by (rule reachable_run) (auto intro: reachable.start)
  let ?es = "[RefreshStarted False [], RefreshListed False [''a''], RefreshScanned False ''a'' [] [],
      RefreshJoined False [(''a'', False)] ''a'' False True, RefreshDone False []]"
  let ?s' = "one_host ''a'' (?p\<lparr>connecting := True, probe_failed := False\<rparr>)
      {#Watching ''a'' 7, Dial ''a''#} 0"
  have run: "run ?s ?es ?s'"
    by (simp add: run_execs evaluate_steps new_peer_def add_mset_commute)
  from reconcile_reconnects [OF r _ run] r run show ?thesis
    by (intro exI [of _ ?s] exI [of _ ?es] exI [of _ ?s']) (simp add: new_peer_def)
qed

text \<open>
  A second notification for an SSH process that is already watched (as with a ControlMaster)
  changes nothing at all: no entry, no count, no task.
\<close>

theorem duplicate_connect_ignored:
  assumes "i \<in> live_sessions s h"
  shows "do_connect h i s = s"
proof -
  from assms have "get (peers s) h \<noteq> None"
    by (cases "get (peers s) h") (auto simp: live_sessions_def peer_at_unknown)
  with assms show ?thesis
    by (auto simp: do_connect_def connect_register_def live_sessions_def peer_at_def
        get_or_create_def Let_def split: option.splits)
qed

text \<open>
  A \<open>Disconnect\<close> message makes a session count twice on its way out: with two sessions open
  and the host connected, a \<open>Disconnect\<close> for the first process followed by the exit of that
  process brings the count to zero and takes the connection down, although the second process is
  still alive and still watched.
\<close>

theorem disconnect_double_counts:
  "\<exists>s s'. reachable any_event s \<and> connected (peer_at (peers s) h)
    \<and> daemon_step s (PidExited h 1) s'
    \<and> live_sessions s' h = {2} \<and> Watching h 2 \<in># tasks s'
    \<and> session_count (peer_at (peers s') h) = 0 \<and> \<not> connected (peer_at (peers s') h)
    \<and> enabled s' (ConnEnded h 0 CloseSignal)"
proof -
  let ?s = "one_host h (linked {2} 0) {#Watching h 1, Watching h 2, Conn h 0#} 1"
  have "reachable any_event ?s"
    by (rule reachable_run [OF double_exit_run reachable.start]) simp_all
  moreover have "daemon_step ?s (PidExited h 1) (fire (PidExited h 1) ?s)"
    by (simp add: daemon_step_iff)
  ultimately show ?thesis
    by (intro exI [of _ ?s] exI [of _ "fire (PidExited h 1) ?s"])
      (simp add: linked_def live_sessions_def reg_simps chan_open_def)
qed

text \<open>
  Two connection attempts to one host can be in progress at once, although the flag
  \<open>connecting\<close> is meant to prevent it: an unreachable result of a refresh clears the flag of an
  attempt that started after its probe. Both attempts then connect, and every broadcast frame can
  be sent to the host twice.
\<close>

theorem two_connections_to_one_host:
  "\<exists>s c d. reachable no_disconnect s \<and> c \<noteq> d
    \<and> enabled s (Forwarded h c) \<and> enabled s (Forwarded h d)"
proof -
  let ?s = "one_host h (linked {1, 2, 3} 1) {#Watching h 1, Watching h 2, Watching h 3,
      Refresh False (Scan [] []), Conn h 0, Conn h 1#} 2"
  have "reachable no_disconnect ?s"
    by (rule reachable_run [OF racing_attempts_run reachable.start]) simp_all
  then show ?thesis
    by (intro exI [of _ ?s] exI [of _ 0] exI [of _ 1]) simp
qed

text \<open>
  The clean-up of a connection that has ended can take down its successor: a reachable state
  has a live session, a connection that is up, and an older connection task that has yet to clean
  up; its clean-up marks the host disconnected and drops the close sender of the new connection,
  which is thereby told to close.
\<close>

theorem stale_cleanup_hits_successor:
  "\<exists>s s' c. reachable no_disconnect s \<and> daemon_step s (CleanedUp h 0) s'
    \<and> c \<noteq> 0 \<and> Conn h c \<in># tasks s \<and> chan_open s h c \<and> connected (peer_at (peers s) h)
    \<and> 0 < session_count (peer_at (peers s') h)
    \<and> \<not> connected (peer_at (peers s') h) \<and> enabled s' (ConnEnded h c CloseSignal)"
proof -
  let ?s = "one_host h (linked {7} 1) {#Watching h 7, Refresh True (Scan [] []),
      Refresh False (Scan [] []), Closing h 0, Conn h 1#} 2"
  have "reachable no_disconnect ?s"
    by (rule reachable_run [OF stale_cleanup_run reachable.start]) simp_all
  moreover have "daemon_step ?s (CleanedUp h 0) (fire (CleanedUp h 0) ?s)"
    by (simp add: daemon_step_iff)
  ultimately show ?thesis
    by (intro exI [of _ ?s] exI [of _ "fire (CleanedUp h 0) ?s"] exI [of _ 1])
      (simp add: linked_def reg_simps chan_open_def)
qed

end
