(* ===== verification/Cli.thy ===== *)
theory Cli
  imports Startup Setup Daemon_Properties
begin

text \<open>
  The command line program (\<^verbatim>\<open>src/src/main.rs\<close>, \<^verbatim>\<open>src/src/cli.rs\<close>): its commands, the clients
  of the daemon's socket and the exit code. The arguments are those that the \<open>clap\<close> library has
  parsed.
\<close>

datatype Commands =
    DaemonCmd "16 word"
  | NotifyCmd hostname "16 word" pid
  | StatusCmd
  | InjectCmd string
  | SetupCmd "16 word" bool

datatype client_error = TimedOutError | IoError | JsonError

text \<open>The outcomes of a connection attempt and of writing a line, with and without a deadline.\<close>

datatype attempt = Done | Refused | Late

definition waited :: "attempt \<Rightarrow> client_error + unit" where
  "waited a = (case a of Done \<Rightarrow> Inr () | Refused \<Rightarrow> Inl IoError | Late \<Rightarrow> Inl TimedOutError)"

definition json_line :: "(IpcMessage \<Rightarrow> string option) \<Rightarrow> IpcMessage \<Rightarrow> client_error + string" where
  "json_line to_json msg =
     (case to_json msg of None \<Rightarrow> Inl JsonError | Some j \<Rightarrow> Inr (j @ [CHR 0x0A]))"

text \<open>The value of a client that succeeded is the line it has sent.\<close>

definition send_notify ::
  "(IpcMessage \<Rightarrow> string option) \<Rightarrow> attempt \<Rightarrow> attempt \<Rightarrow> hostname \<Rightarrow> 16 word \<Rightarrow> pid
     \<Rightarrow> client_error + string" where
  "send_notify to_json conn_result write_result host port ssh_pid =
     bind_result (waited conn_result) (\<lambda>_.
     bind_result (json_line to_json (Connect host port ssh_pid)) (\<lambda>line.
     bind_result (waited write_result) (\<lambda>_. Inr line)))"

definition send_inject ::
  "(IpcMessage \<Rightarrow> string option) \<Rightarrow> bytes option \<Rightarrow> bool \<Rightarrow> bool \<Rightarrow> client_error + string" where
  "send_inject to_json png_file conn_result write_result =
     (case png_file of
        None \<Rightarrow> Inl IoError
      | Some png_bytes \<Rightarrow>
          if \<not> conn_result then Inl IoError
          else bind_result (json_line to_json (InjectFrame png_bytes)) (\<lambda>line.
                 if write_result then Inr line else Inl IoError))"

definition status_word :: "PeerInfo \<Rightarrow> string" where
  "status_word i =
     (case status_of i of
        Syncing \<Rightarrow> ''syncing'' | NoDaemon \<Rightarrow> ''no daemon'' | Probing \<Rightarrow> ''probing'')"

definition status_line :: "PeerInfo \<Rightarrow> string" where
  "status_line i =
     ''  '' @ pi_hostname i @ '' -- '' @ status_word i @ '' ('' @ show_nat (pi_session_count i)
     @ '' SSH session'' @ (if pi_session_count i = 1 then [] else ''s'') @ '')''"

text \<open>
  \<open>run_status\<close>: the lines printed. \<open>reply\<close> gives the daemon's answer to the line sent, unless the
  socket fails first.
\<close>

definition run_status ::
  "(IpcMessage \<Rightarrow> string option) \<Rightarrow> (string \<Rightarrow> StatusResponse option) \<Rightarrow> bool
     \<Rightarrow> (string \<Rightarrow> string option) \<Rightarrow> client_error + string list" where
  "run_status to_json from_json conn_result reply =
     (if \<not> conn_result then Inr [''daemon not running'']
      else bind_result (json_line to_json StatusRequest) (\<lambda>line.
             case reply line of
               None \<Rightarrow> Inl IoError
             | Some response_line \<Rightarrow>
                 (case from_json response_line of
                    None \<Rightarrow> Inl JsonError
                  | Some response \<Rightarrow>
                      if resp_peers response = []
                      then Inr [''daemon running, no active connections'']
                      else Inr (''Peers:'' # map status_line (resp_peers response)))))"

text \<open>The exit code of \<open>main\<close> for a command that succeeded or failed.\<close>

definition exit_code :: "Commands \<Rightarrow> bool \<Rightarrow> nat" where
  "exit_code c ok = (if ok then 0 else case c of NotifyCmd _ _ _ \<Rightarrow> 0 | _ \<Rightarrow> 1)"

section \<open>Properties\<close>

text \<open>
  What the command line clients send, the daemon understands: for a JSON library that reads
  back what it writes, the line of a \<^verbatim>\<open>notify\<close> makes the daemon take a \<open>Connect\<close> step for that host
  and process, and the line of an \<^verbatim>\<open>inject\<close> puts the file on the broadcast channel as one PNG frame.
\<close>
theorem daemon_understands_clients:
  assumes "\<forall>m j. to_json m = Some j \<longrightarrow> from_json (j @ [CHR 0x0A]) = Some m"
  shows "(send_notify to_json a b host port ssh_pid = Inr line \<longrightarrow>
      handle_ipc_connection from_json (Some line) hs = DaemonEvent (IpcConnect host ssh_pid))
    \<and> (send_inject to_json png c d = Inr line \<longrightarrow>
      (\<exists>bs. png = Some bs
        \<and> handle_ipc_connection from_json (Some line) hs = Broadcast (new_png bs)))"
  using assms
  by (auto simp: send_notify_def send_inject_def json_line_def handle_ipc_connection_def
      bind_result_Inr split: option.splits if_splits)

text \<open>The line that a user expects for a host.\<close>

definition expected_line :: "hostname \<Rightarrow> PeerState \<Rightarrow> string" where
  "expected_line h p =
     ''  '' @ h @ '' -- ''
     @ (if connected p \<or> 0 < inbound_connections p then ''syncing''
        else if probe_failed p then ''no daemon'' else ''probing'')
     @ '' ('' @ show_nat (session_count p + inbound_connections p)
     @ (if session_count p + inbound_connections p = 1 then '' SSH session)'' else '' SSH sessions)'')"

lemma listed_line:
  assumes "wf_registry r" and "i \<in> set (list_peers r)"
  shows "status_line i = expected_line (pi_hostname i) (peer_at r (pi_hostname i))"
  using assms(2) unfolding status_list_exact [OF assms(1), THEN conjunct2, rule_format]
  by (auto simp: status_line_def expected_line_def status_word_def status_of_def peer_at_get)

lemma listed_hosts:
  assumes "wf_registry r"
  shows "distinct (map pi_hostname (list_peers r))"
    and "set (map pi_hostname (list_peers r))
      = {h. 0 < session_count (peer_at r h) + inbound_connections (peer_at r h)}"
proof -
  show "distinct (map pi_hostname (list_peers r))" using status_list_exact [OF assms] by blast
  have some: "\<exists>i. i \<in> set (list_peers r) \<and> pi_hostname i = h"
    if "0 < session_count (peer_at r h) + inbound_connections (peer_at r h)" for h
  proof -
    note pos = that
    obtain p where p: "get r h = Some p"
      using pos by (cases "get r h") (auto simp: peer_at_unknown new_peer_def)
    with pos have "peer_info h p \<noteq> None" by (simp add: peer_info_def peer_at_get)
    then obtain i where "peer_info h p = Some i" "pi_hostname i = h"
      by (auto simp: peer_info_def Let_def split: if_splits)
    with p show ?thesis by (auto simp: set_list_peers [OF assms])
  qed
  have pos: "0 < session_count (peer_at r (pi_hostname i)) + inbound_connections (peer_at r (pi_hostname i))"
    if "i \<in> set (list_peers r)" for i
    using that unfolding status_list_exact [OF assms, THEN conjunct2, rule_format] by (auto simp: peer_at_get)
  show "set (map pi_hostname (list_peers r))
      = {h. 0 < session_count (peer_at r h) + inbound_connections (peer_at r h)}"
    unfolding set_map
  proof (intro equalityI subsetI)
    fix h assume "h \<in> pi_hostname ` set (list_peers r)"
    then show "h \<in> {h. 0 < session_count (peer_at r h) + inbound_connections (peer_at r h)}"
      using pos by (elim imageE) (simp only: mem_Collect_eq)
  next
    fix h assume "h \<in> {h. 0 < session_count (peer_at r h) + inbound_connections (peer_at r h)}"
    then show "h \<in> pi_hostname ` set (list_peers r)"
      using some [of h] by (metis imageI mem_Collect_eq)
  qed
qed

text \<open>
  C27. \<^verbatim>\<open>tassh status\<close> prints what the daemon holds: after the refresh that the request starts, it
  prints the heading and exactly one line for each host with an SSH session or an inbound connection,
  or one line that there is none. The line of a host says \<^verbatim>\<open>syncing\<close> iff the host is connected either
  way, otherwise whether the last probe failed, and counts its sessions and inbound connections.
\<close>
theorem status_prints_registry:
  assumes "reachable any_event s" and "daemon_step s (RefreshDone True infos) s'"
    and "from_json (status_reply reply_json infos) = Some \<lparr>resp_peers = infos\<rparr>"
    and "run_status to_json from_json True (\<lambda>_. Some (status_reply reply_json infos)) = Inr out"
  shows "\<exists>hosts. distinct hosts
    \<and> set hosts = {h. 0 < session_count (peer_at (peers s) h) + inbound_connections (peer_at (peers s) h)}
    \<and> out = (if hosts = [] then [''daemon running, no active connections'']
        else ''Peers:'' # map (\<lambda>h. expected_line h (peer_at (peers s) h)) hosts)"
proof -
  have infos: "infos = list_peers (peers s)"
    using assms(2) by (auto elim: daemon_step.cases)
  have out: "out = (if infos = [] then [''daemon running, no active connections'']
      else ''Peers:'' # map status_line infos)"
    using assms(3,4)
    by (auto simp: run_status_def json_line_def bind_result_Inr split: option.splits if_splits)
  note wf = reachable_wf [OF assms(1)]
  have "map status_line infos = map (\<lambda>h. expected_line h (peer_at (peers s) h)) (map pi_hostname infos)"
    using listed_line [OF wf] by (simp add: infos)
  with out listed_hosts [OF wf] show ?thesis
    by (intro exI [of _ "map pi_hostname infos"]) (simp add: infos)
qed

theorem status_prints_registry_witness:
  "\<exists>s s'. reachable any_event s \<and> daemon_step s (RefreshDone True (list_peers (peers s))) s'
    \<and> run_status (\<lambda>m. Some []) (\<lambda>l. Some \<lparr>resp_peers = list_peers (peers s)\<rparr>) True
        (\<lambda>_. Some (status_reply (\<lambda>r. []) (list_peers (peers s))))
      = Inr [''Peers:'', ''  db -- syncing (1 SSH session)'']
    \<and> expected_line ''db'' (peer_at (peers s) ''db'') = ''  db -- syncing (1 SSH session)''"
proof -
  let ?p = "new_peer\<lparr>inbound_connections := 1\<rparr>"
  let ?s = "one_host ''db'' ?p {#Inbound ''db'', Refresh True (Scan [] [])#} 0"
  let ?infos = "list_peers (peers ?s)"
  have "run initial [InboundOpened ''db'', RefreshStarted True [], RefreshListed True []] ?s"
    by (simp add: run_execs evaluate_steps new_peer_def add_mset_commute)
  then have r: "reachable any_event ?s"
    by (rule reachable_run) (auto intro: reachable.start)
  have step: "daemon_step ?s (RefreshDone True ?infos) (fire (RefreshDone True ?infos) ?s)"
    by (simp add: daemon_step_iff)
  have infos: "?infos = [\<lparr>pi_hostname = ''db'', pi_connected = True, pi_no_daemon = False,
      pi_session_count = 1\<rparr>]"
    by (simp add: list_peers_def peer_info_def new_peer_def map_filter_def)
  have "char_of (of_char (CHR ''1'') :: nat) = CHR ''1''" by (rule char_of_char)
  then have one: "show_nat (Suc 0) = ''1''" by (simp add: show_nat.simps [of "Suc 0"])
  have out: "run_status (\<lambda>m. Some []) (\<lambda>l. Some \<lparr>resp_peers = ?infos\<rparr>) True
      (\<lambda>_. Some (status_reply (\<lambda>r. []) ?infos)) = Inr [''Peers:'', ''  db -- syncing (1 SSH session)'']"
    unfolding infos
    by (simp add: run_status_def json_line_def status_line_def status_word_def status_of_def
        one)
  from status_prints_registry [OF r step, where from_json = "\<lambda>l. Some \<lparr>resp_peers = ?infos\<rparr>", OF refl out]
  obtain hosts where hosts: "distinct hosts"
    "set hosts = {h. 0 < session_count (peer_at (peers ?s) h) + inbound_connections (peer_at (peers ?s) h)}"
    "[''Peers:'', ''  db -- syncing (1 SSH session)'']
      = (if hosts = [] then [''daemon running, no active connections'']
         else ''Peers:'' # map (\<lambda>h. expected_line h (peer_at (peers ?s) h)) hosts)"
    by blast
  have "set hosts = {''db''}"
    unfolding hosts(2) by (auto simp: peer_at_def get_def new_peer_def split: if_splits)
  with hosts(1) have "hosts = [''db'']" by (cases hosts; cases "tl hosts") auto
  with hosts(3) have "expected_line ''db'' (peer_at (peers ?s) ''db'') = ''  db -- syncing (1 SSH session)''"
    by simp
  with r step out show ?thesis by blast
qed

end
