(* ===== verification/Display_Properties.thy ===== *)
theory Display_Properties
  imports Display
begin

text \<open>
  What the display manager guarantees: which lock files the cleanup removes, which display is
  chosen and published, and how the monitor behaves; and that a shutdown cannot get hold of a
  running Xvfb.
\<close>

section \<open>The cleanup of lock files\<close>

text \<open>Display \<open>n\<close> has a lock file naming a process that is gone.\<close>

definition stale :: "(int \<Rightarrow> bool) \<Rightarrow> files \<Rightarrow> nat \<Rightarrow> bool" where
  "stale alive fs n \<longleftrightarrow>
     (\<exists>s p. fs (lock_path n) = Some s \<and> parse_i32 (trim s) = Some p \<and> p > 0 \<and> \<not> alive p)"

lemma lock_path_eq [simp]: "lock_path m = lock_path n \<longleftrightarrow> m = n"
  by (simp add: lock_path_def)

lemma x_socket_path_eq [simp]: "x_socket_path m = x_socket_path n \<longleftrightarrow> m = n"
  by (simp add: x_socket_path_def)

lemma lock_not_socket [simp]: "lock_path m \<noteq> x_socket_path n" "x_socket_path n \<noteq> lock_path m"
proof -
  have "is_digit (last (show_nat n))"
    using show_nat_digits [of n] by (metis last_in_set list_all_iff)
  then have "last (x_socket_path n) \<noteq> last (lock_path m)"
    using show_nat_digits [of n]
    by (auto simp: lock_path_def x_socket_path_def is_digit_def char_code_def)
  then show "lock_path m \<noteq> x_socket_path n" "x_socket_path n \<noteq> lock_path m" by metis+
qed

lemma clean_lock_apply:
  "clean_lock alive removable n fs p =
     (if stale alive fs n \<and> removable p \<and> (p = lock_path n \<or> p = x_socket_path n)
      then None else fs p)"
  by (auto simp: clean_lock_def stale_def remove_file_def split: option.splits)

lemma clean_locks_apply:
  "distinct ns \<Longrightarrow> fold (clean_lock alive removable) ns fs p =
     (if \<exists>n \<in> set ns. stale alive fs n \<and> removable p \<and> (p = lock_path n \<or> p = x_socket_path n)
      then None else fs p)"
proof (induction ns arbitrary: fs)
  case (Cons n ns)
  have "\<forall>m \<in> set ns. stale alive (clean_lock alive removable n fs) m \<longleftrightarrow> stale alive fs m"
    using Cons.prems by (auto simp: stale_def clean_lock_apply)
  then have "(\<exists>m \<in> set ns. stale alive (clean_lock alive removable n fs) m \<and> removable p
        \<and> (p = lock_path m \<or> p = x_socket_path m))
      \<longleftrightarrow> (\<exists>m \<in> set ns. stale alive fs m \<and> removable p \<and> (p = lock_path m \<or> p = x_socket_path m))"
    by blast
  with Cons.IH [of "clean_lock alive removable n fs"] Cons.prems
  have "fold (clean_lock alive removable) (n # ns) fs p =
     (if \<exists>m \<in> set ns. stale alive fs m \<and> removable p \<and> (p = lock_path m \<or> p = x_socket_path m)
      then None else clean_lock alive removable n fs p)"
    by simp
  with clean_lock_apply [of alive removable n fs p] show ?case by auto
qed simp

text \<open>
  C34. The cleanup removes the lock file and the socket of each display below 100 whose lock file
  names a process that is gone, as far as they may be removed, and touches no other file.
\<close>
theorem cleanup_removes_stale_only:
  "clean_stale_xvfb_locks alive removable fs p =
     (if \<exists>n < 100. stale alive fs n \<and> removable p \<and> (p = lock_path n \<or> p = x_socket_path n)
      then None else fs p)"
  by (auto simp: clean_stale_xvfb_locks_def clean_locks_apply Bex_def simp del: upt_conv_Cons upt_rec_numeral)

section \<open>The display\<close>

text \<open>
  The display number Xvfb writes, a decimal number and a line feed, is read back and becomes the
  display string; a number that does not fit in 32 bits is an error.
\<close>
theorem displayfd_roundtrip:
  "spawn_xvfb (Started (Some (show_nat n @ [CHR 0x0A]))) =
     (if n < 2 ^ 32 then Inr (CHR '':'' # show_nat n) else Inl (UnexpectedDisplayNumber (show_nat n)))"
proof -
  have "(case show_nat n of c # t \<Rightarrow> if c = CHR ''+'' then t else show_nat n | [] \<Rightarrow> show_nat n) = show_nat n"
    using show_nat_hd_digit [of n] by (auto simp: is_digit_def char_code_def split: list.splits)
  then have "parse_u32 (show_nat n) = (if n < 2 ^ 32 then Some (word_of_nat n) else None)"
    using show_nat_digits [of n] by (simp add: parse_u32_def)
  then show ?thesis
    by (simp add: spawn_xvfb_def read_displayfd_def trim_line show_nat_printable
        unat_of_nat take_bit_nat_eq_self)
qed

lemma spawn_xvfb_display: "spawn_xvfb x = Inr d \<Longrightarrow> d \<noteq> []"
  by (cases x) (auto simp: spawn_xvfb_def bind_result_Inr)

text \<open>
  C35. A display manager that could be made is never headless and its display string is not empty.
  It is Xvfb exactly if that was forced or neither variable is set; then the file that SSH sessions
  source exports this very display, and so does the environment of later subprocesses. Otherwise
  Wayland goes before X11 and nothing is changed.
\<close>
theorem detected_display:
  assumes "detect_and_init alive removable x writable force w = (Inr dm, w')"
  shows "dm_env dm \<noteq> Headless \<and> dm_display_str dm \<noteq> []
    \<and> (dm_env dm = Xvfb \<longleftrightarrow> force \<or> nonempty_var (host_env w) ''WAYLAND_DISPLAY'' = None
          \<and> nonempty_var (host_env w) ''DISPLAY'' = None)
    \<and> (dm_env dm = Wayland \<longrightarrow> nonempty_var (host_env w) ''WAYLAND_DISPLAY'' = Some (dm_display_str dm))
    \<and> (dm_env dm = X11 \<longrightarrow> nonempty_var (host_env w) ''WAYLAND_DISPLAY'' = None
          \<and> nonempty_var (host_env w) ''DISPLAY'' = Some (dm_display_str dm))
    \<and> (if dm_env dm = Xvfb
       then host_files w' (display_file_path (host_env w')) = Some (display_script (dm_display_str dm))
         \<and> host_env w' ''DISPLAY'' = Some (dm_display_str dm)
         \<and> dm_has_child dm
       else w' = w \<and> \<not> dm_has_child dm)"
  using assms
  by (auto simp: detect_and_init_def init_xvfb_def nonempty_var_def publish_display_def
      Let_def spawn_xvfb_display split: option.splits if_splits sum.splits)

theorem detected_display_witness:
  "\<exists>dm w'. detect_and_init (\<lambda>p. False) (\<lambda>p. True) (Started (Some (show_nat 7 @ [CHR 0x0A]))) True True
      \<lparr>host_files = Map.empty, host_env = [''DISPLAY'' \<mapsto> '':0'']\<rparr> = (Inr dm, w')
    \<and> dm_env dm = Xvfb \<and> host_env w' ''DISPLAY'' = Some (dm_display_str dm)"
proof -
  have "spawn_xvfb (Started (Some (show_nat 7 @ [CHR 0x0A]))) = Inr (CHR '':'' # show_nat 7)"
    by (simp add: spawn_xvfb_def read_displayfd_def trim_line show_nat_printable parse_show_nat)
  then obtain dm w' where run: "detect_and_init (\<lambda>p. False) (\<lambda>p. True)
      (Started (Some (show_nat 7 @ [CHR 0x0A]))) True True
      \<lparr>host_files = Map.empty, host_env = [''DISPLAY'' \<mapsto> '':0'']\<rparr> = (Inr dm, w')"
    by (auto simp: detect_and_init_def init_xvfb_def publish_display_def Let_def)
  with detected_display [OF run] show ?thesis by (auto split: if_splits)
qed

section \<open>The monitor\<close>

text \<open>The respawns that failed since Xvfb was last started, for the events of a run.\<close>

fun respawn_failed :: "xvfb_start \<Rightarrow> bool" where
  "respawn_failed x = (case spawn_xvfb x of Inl e \<Rightarrow> True | Inr d \<Rightarrow> False)"

fun failures :: "nat \<Rightarrow> sup_event list \<Rightarrow> nat" where
  "failures n [] = n"
| "failures n (MonitorStores # es) = failures 0 es"
| "failures n (Respawned x writable # es) = failures (if respawn_failed x then n + 1 else n) es"
| "failures n (e # es) = failures n es"

text \<open>
  The monitor holds the lock while it waits and only then; it has counted one attempt more than
  respawns failed from the exit of a child up to the next respawn; it sleeps for a power of two.
\<close>

definition monitor_ok :: "nat \<Rightarrow> supervisor \<Rightarrow> bool" where
  "monitor_ok n s \<longleftrightarrow>
     (locked s \<longleftrightarrow> monitor s = Waiting)
     \<and> (case monitor s of
          Locking \<Rightarrow> attempts s = n \<and> n < MAX_ATTEMPTS
        | Waiting \<Rightarrow> attempts s = n \<and> n < MAX_ATTEMPTS
        | Sleeping k \<Rightarrow> attempts s = n + 1 \<and> n + 1 < MAX_ATTEMPTS \<and> k = 2 ^ (n + 1)
        | Storing d \<Rightarrow> attempts s = n + 1 \<and> n + 1 < MAX_ATTEMPTS
        | Stopped \<Rightarrow> True
        | Exited \<Rightarrow> attempts s = n + 1 \<and> n + 1 = MAX_ATTEMPTS)"

lemma monitor_ok_step:
  "sup_step s e s' \<Longrightarrow> monitor_ok n s \<Longrightarrow> monitor_ok (failures n [e]) s'"
  by (induction rule: sup_step.induct)
    (auto simp: monitor_ok_def monitor_locked_def monitor_reaped_def monitor_respawned_def
      monitor_stored_def shutdown_locked_def MAX_ATTEMPTS_def Let_def
      split: option.splits sum.splits if_splits monitor_pc.splits)

lemma failures_Cons: "failures n (e # es) = failures (failures n [e]) es"
  by (cases e) simp_all

lemma monitor_ok_run: "sup_run s es s' \<Longrightarrow> monitor_ok n s \<Longrightarrow> monitor_ok (failures n es) s'"
proof (induction arbitrary: n rule: sup_run.induct)
  case (sup_cons s e s' es s'')
  from sup_cons.IH [OF monitor_ok_step [OF sup_cons.hyps(1) sup_cons.prems]]
  show ?case by (simp only: failures_Cons [of n e es])
qed simp

lemma supervising_ok: "monitor_ok 0 (supervising d)"
  by (simp add: monitor_ok_def supervising_def MAX_ATTEMPTS_def)

text \<open>
  C36. The backoff before a respawn is two seconds, doubled for every respawn that failed since
  Xvfb last ran, and at most sixteen; the process gives up after exactly four failed respawns in
  a row.
\<close>
theorem monitor_backoff:
  assumes "sup_run (supervising d) es s"
  shows "(\<forall>k. monitor s = Sleeping k \<longrightarrow> k = 2 * 2 ^ failures 0 es \<and> k \<le> 16)
    \<and> (monitor s = Exited \<longrightarrow> failures 0 es = 4)"
proof -
  from monitor_ok_run [OF assms supervising_ok]
  have ok: "monitor_ok (failures 0 es) s" .
  have "2 * 2 ^ failures 0 es \<le> (16 :: nat)" if "monitor s = Sleeping k" for k
  proof -
    from ok that have "failures 0 es \<le> 3" by (simp add: monitor_ok_def MAX_ATTEMPTS_def)
    then have "(2 :: nat) ^ failures 0 es \<le> 2 ^ 3" by (intro power_increasing) simp_all
    then show ?thesis by simp
  qed
  with ok show ?thesis by (auto simp: monitor_ok_def MAX_ATTEMPTS_def)
qed

lemmas supervisor_steps = sup_run_cons sup_step_simps monitor_locked_def monitor_reaped_def
  monitor_respawned_def monitor_stored_def shutdown_locked_def supervising_def MAX_ATTEMPTS_def
  spawn_xvfb_def

text \<open>A state with a dead child that the monitor is about to look at, after \<open>n\<close> attempts.\<close>

definition crashed :: "nat \<Rightarrow> string option \<Rightarrow> supervisor" where
  "crashed n p = \<lparr>child_handle = Some Dead, locked = False, monitor = Locking, attempts = n,
     shutdown = NotCalled, published = p, orphans = 0\<rparr>"

definition failed_round :: "sup_event list" where
  "failed_round = [MonitorLocks, MonitorReaps, Respawned NotInstalled True]"

lemma crash_round: "n < 4 \<Longrightarrow> sup_run (crashed n p) failed_round (crashed (n + 1) p)"
  by (simp add: failed_round_def crashed_def supervisor_steps Let_def)

lemma sup_run_append: "sup_run s es s' \<Longrightarrow> sup_run s' es' s'' \<Longrightarrow> sup_run s (es @ es') s''"
  by (induction rule: sup_run.induct) (auto intro: sup_run.intros)

lemma crash_run:
  "\<exists>es s. sup_run (supervising d) es s \<and> monitor s = Exited"
proof -
  have "sup_run (supervising d) [ChildExits] (crashed 0 (Some d))"
    by (simp add: crashed_def supervisor_steps)
  moreover have "sup_run (crashed 0 p) failed_round (crashed 1 p)"
    "sup_run (crashed 1 p) failed_round (crashed 2 p)"
    "sup_run (crashed 2 p) failed_round (crashed 3 p)"
    "sup_run (crashed 3 p) failed_round (crashed 4 p)" for p
    using crash_round [of 0 p] crash_round [of 1 p] crash_round [of 2 p] crash_round [of 3 p]
    by (simp_all add: numeral_eq_Suc)
  moreover have "\<exists>s. sup_run (crashed 4 p) [MonitorLocks, MonitorReaps] s \<and> monitor s = Exited" for p
    by (simp add: crashed_def supervisor_steps Let_def)
  ultimately show ?thesis using sup_run_append by meson
qed

theorem monitor_backoff_witness:
  "\<exists>es s. sup_run (supervising '':7'') es s \<and> monitor s = Exited \<and> failures 0 es = 4"
proof -
  obtain es s where run: "sup_run (supervising '':7'') es s" "monitor s = Exited"
    using crash_run by blast
  with monitor_backoff [OF run(1)] show ?thesis by blast
qed

section \<open>The shutdown\<close>

text \<open>
  C37. While Xvfb runs and the monitor waits for it, a shutdown never gets the lock: whatever
  happens short of Xvfb exiting by itself, the shutdown does not finish, Xvfb is not killed, and
  the published display file stays.
\<close>
theorem shutdown_blocked_by_monitor:
  assumes "sup_run (supervising d) es s" and "monitor s = Waiting" and "child_handle s = Some Running"
    and "shutdown s = NotCalled"
    and "sup_run s es' s'" and "ChildExits \<notin> set es'" and "WaitFails \<notin> set es'"
  shows "shutdown s' \<noteq> Finished \<and> child_handle s' = Some Running \<and> published s' = published s"
proof -
  have "locked s"
    using monitor_ok_run [OF assms(1) supervising_ok] assms(2) by (simp add: monitor_ok_def)
  moreover have "shutdown s \<noteq> Finished" using assms(4) by simp
  ultimately show ?thesis using assms(2,3,6,7)
    by (induction rule: sup_run.induct [OF assms(5)]) (auto elim!: sup_step.cases)
qed

theorem shutdown_blocked_by_monitor_witness:
  "\<exists>s s'. sup_run (supervising '':7'') [MonitorLocks] s
     \<and> sup_run s [ShutdownCalled, ShutdownTimesOut] s'
     \<and> shutdown s' = TimedOut \<and> child_handle s' = Some Running \<and> published s' = Some '':7''"
proof -
  obtain s where s: "sup_run (supervising '':7'') [MonitorLocks] s" "monitor s = Waiting"
      "child_handle s = Some Running" "shutdown s = NotCalled" "published s = Some '':7''"
    by (simp add: supervisor_steps)
  moreover obtain s' where s': "sup_run s [ShutdownCalled, ShutdownTimesOut] s'" "shutdown s' = TimedOut"
    using s by (auto simp: supervisor_steps)
  ultimately show ?thesis
    using shutdown_blocked_by_monitor [OF s(1-4) s'(1)] by auto
qed

end
