(* ===== verification/Startup_Properties.thy ===== *)
theory Startup_Properties
  imports Startup Display_Properties
begin

text \<open>
  What a start of the daemon leaves behind: a clipboard watcher that has a display, and the socket
  and display files; and two ways in which the display file goes wrong.
\<close>

lemma started_daemon:
  assumes "start_daemon sw w = (Inr d, w')"
  obtains w3 where
    "detect_and_init (st_alive sw) (st_removable sw) (st_xvfb sw) (st_publishable sw) True
       (w\<lparr>host_files := remove_file (st_removable sw) (socket_path (host_env w))
          (remove_file (st_removable sw) (path_join (socket_dir (host_env w)) ''display'')
             (host_files w))\<rparr>)
     = (Inr (rd_display d), w3)"
    and "rd_watcher d = watcher_displays (host_env w ''DISPLAY'') (host_env w ''WAYLAND_DISPLAY'') (rd_display d)"
    and "w' = w3\<lparr>host_files := (host_files w3)(socket_path (host_env w) \<mapsto> [])\<rparr>"
  using assms
  by (auto simp: start_daemon_def Let_def split: if_splits sum.splits prod.splits)

lemma detect_env:
  "detect_and_init alive removable x writable True w = (Inr dm, w')
   \<Longrightarrow> host_env w' = (host_env w)(''DISPLAY'' \<mapsto> dm_display_str dm)
     \<and> host_files w' (display_file_path (host_env w)) = Some (display_script (dm_display_str dm))
     \<and> dm_env dm = Xvfb \<and> dm_display_str dm \<noteq> []"
  by (auto simp: detect_and_init_def init_xvfb_def Let_def publish_display_def display_file_path_def
      spawn_xvfb_display split: sum.splits if_splits option.splits)

lemma nonempty_cases: "nonempty v = None \<or> (\<exists>s. nonempty v = Some s \<and> v = Some s \<and> s \<noteq> [])"
  by (auto simp: nonempty_def split: option.splits)

lemma nonempty_some [simp]: "nonempty (Some s) = (if s = [] then None else Some s)"
  "nonempty None = None"
  by (simp_all add: nonempty_def)

text \<open>
  C32. A daemon that has started never lacks a display for its clipboard watcher: the watcher runs on
  the desktop's Wayland display if there was one at the start, otherwise on the desktop's X11
  display, otherwise on the daemon's own Xvfb.
\<close>
theorem watcher_has_display:
  assumes "start_daemon sw w = (Inr d, w')"
  shows "choose_backend (fst (rd_watcher d)) (snd (rd_watcher d)) = Inr
      (case nonempty (host_env w ''WAYLAND_DISPLAY'') of
         Some wd \<Rightarrow> BackendWayland wd
       | None \<Rightarrow> (case nonempty (host_env w ''DISPLAY'') of
                    Some x \<Rightarrow> BackendX11 x
                  | None \<Rightarrow> BackendX11 (dm_display_str (rd_display d))))
    \<and> watch_clipboard with_command with_arboard (fst (rd_watcher d)) (snd (rd_watcher d))
      = with_command (fst (rd_watcher d)) (snd (rd_watcher d))"
  using started_daemon [OF assms]
proof cases
  case (1 w3)
  from detect_env [OF 1(1)] have "dm_env (rd_display d) = Xvfb" "dm_display_str (rd_display d) \<noteq> []"
    by simp_all
  then show ?thesis
    using nonempty_cases [of "host_env w ''DISPLAY''"] nonempty_cases [of "host_env w ''WAYLAND_DISPLAY''"]
    by (auto simp: 1(2) watcher_displays_def choose_backend_def watch_clipboard_def Let_def)
qed

text \<open>A start on a machine without a desktop where Xvfb takes display 7.\<close>

definition headless_start :: start_world where
  "headless_start = \<lparr>st_mkdir = True, st_live = False, st_removable = (\<lambda>p. True), st_alive = (\<lambda>p. True),
     st_xvfb = Started (Some (show_nat 7 @ [CHR 0x0A])), st_publishable = True, st_bind = True,
     st_signals = True\<rparr>"

lemma headless_starts:
  "\<exists>d w'. start_daemon headless_start \<lparr>host_files = Map.empty, host_env = [''HOME'' \<mapsto> ''/u'']\<rparr> = (Inr d, w')
    \<and> dm_display_str (rd_display d) = CHR '':'' # show_nat 7"
proof -
  have "spawn_xvfb (Started (Some (show_nat 7 @ [CHR 0x0A]))) = Inr (CHR '':'' # show_nat 7)"
    by (simp add: spawn_xvfb_def read_displayfd_def trim_line show_nat_printable parse_show_nat)
  then show ?thesis
    by (simp add: start_daemon_def headless_start_def detect_and_init_def init_xvfb_def
        publish_display_def Let_def)
qed

theorem watcher_has_display_witness:
  "\<exists>d w'. start_daemon headless_start \<lparr>host_files = Map.empty, host_env = [''HOME'' \<mapsto> ''/u'']\<rparr> = (Inr d, w')
    \<and> choose_backend (fst (rd_watcher d)) (snd (rd_watcher d)) = Inr (BackendX11 (CHR '':'' # show_nat 7))"
proof -
  obtain d w' where run: "start_daemon headless_start
      \<lparr>host_files = Map.empty, host_env = [''HOME'' \<mapsto> ''/u'']\<rparr> = (Inr d, w')"
    and "dm_display_str (rd_display d) = CHR '':'' # show_nat 7"
    using headless_starts by blast
  with watcher_has_display [OF run, of "\<lambda>x y. ()" "()"] show ?thesis by simp
qed

lemma daemon_paths_differ:
  "display_file_path env \<noteq> socket_path env" "path_join (socket_dir env) ''display'' \<noteq> socket_path env"
proof -
  have join: "path_join (path_join h ''.tassh'') ''display'' = path_join h ''.tassh/display''" for h
    by (simp add: path_join_def starts_with_def)
  have "\<not> starts_with ''/'' ''.tassh/display''" "\<not> starts_with ''/'' ''.tassh/daemon.sock''"
    by (simp_all add: starts_with_def)
  note eq = path_join_eq [OF this]
  show "path_join (socket_dir env) ''display'' \<noteq> socket_path env"
    by (simp add: socket_dir_def socket_path_def join eq)
  show "display_file_path env \<noteq> socket_path env"
  proof (cases "env ''HOME''")
    case None
    then show ?thesis
      by (simp add: display_file_path_def socket_path_def daemon_home_def path_join_def starts_with_def)
  next
    case (Some h)
    then show ?thesis
      by (simp add: display_file_path_def socket_path_def daemon_home_def join eq)
  qed
qed

lemma paths_keep [simp]:
  "socket_path (e(''DISPLAY'' \<mapsto> v)) = socket_path e"
  "display_file_path (e(''DISPLAY'' \<mapsto> v)) = display_file_path e"
  by (simp_all add: socket_path_def daemon_home_def display_file_path_def)

lemma files_of_start:
  assumes "start_daemon sw w = (Inr d, w')"
  shows "host_files w' (socket_path (host_env w')) \<noteq> None
    \<and> host_files w' (display_file_path (host_env w')) = Some (display_script (dm_display_str (rd_display d)))"
  using started_daemon [OF assms]
proof cases
  case (1 w3)
  from detect_env [OF 1(1)] show ?thesis
    using daemon_paths_differ(1) [of "host_env w"] by (auto simp: 1(3))
qed

text \<open>
  A second \<^verbatim>\<open>tassh daemon\<close> is refused, but not before it has removed the display file of the one
  that runs: whatever the file held, SSH sessions no longer find it.
\<close>
theorem refused_daemon_removes_display:
  "fst (start_daemon (sw\<lparr>st_mkdir := True, st_live := True, st_removable := (\<lambda>p. True)\<rparr>)
      \<lparr>host_files = fs, host_env = env(''HOME'' \<mapsto> h)\<rparr>) = Inl AlreadyRunning
   \<and> host_files (snd (start_daemon (sw\<lparr>st_mkdir := True, st_live := True, st_removable := (\<lambda>p. True)\<rparr>)
      \<lparr>host_files = fs, host_env = env(''HOME'' \<mapsto> h)\<rparr>)) (display_file_path (env(''HOME'' \<mapsto> h))) = None"
  by (simp add: start_daemon_def Let_def remove_file_def display_file_path_def socket_dir_def
      daemon_home_def)

text \<open>
  The start removes the display file that the display manager writes, rather than another one,
  iff the home directory is known: the two parts of the program have different defaults for it.
\<close>
theorem display_paths_agree:
  "path_join (socket_dir env) ''display'' = display_file_path env \<longleftrightarrow> env ''HOME'' \<noteq> None"
  by (cases "env ''HOME''")
    (simp_all add: socket_dir_def display_file_path_def daemon_home_def path_join_def starts_with_def)

end
