(* ===== verification/Utf8.thy ===== *)
theory Utf8
  imports Rust_Str
begin

text \<open>
  UTF-8 as Rust's standard library has it: which byte strings are a \<open>str\<close>, and what
  \<open>String::from_utf8_lossy\<close> and \<open>CStr::to_string_lossy\<close> make of any bytes: always a string, and the
  same one if it was one.
\<close>

section \<open>Characters at the front of a byte string\<close>

text \<open>
  The width of the character that a first byte announces, and the range of its second byte: no
  overlong forms, no surrogates, nothing beyond U+10FFFF.
\<close>

definition utf8_lead :: "nat \<Rightarrow> (nat \<times> nat \<times> nat) option" where
  "utf8_lead b =
     (if b < 194 then None
      else if b \<le> 223 then Some (2, 128, 191)
      else if b = 224 then Some (3, 160, 191)
      else if b = 237 then Some (3, 128, 159)
      else if b \<le> 239 then Some (3, 128, 191)
      else if b = 240 then Some (4, 144, 191)
      else if b \<le> 243 then Some (4, 128, 191)
      else if b = 244 then Some (4, 128, 143)
      else None)"

text \<open>How many of the next \<open>n\<close> bytes continue a character; the first of them is in a narrower range.\<close>

fun continues :: "nat \<Rightarrow> nat \<Rightarrow> nat \<Rightarrow> string \<Rightarrow> nat" where
  "continues 0 lo hi s = 0"
| "continues (Suc n) lo hi [] = 0"
| "continues (Suc n) lo hi (c # s) =
     (if lo \<le> char_code c \<and> char_code c \<le> hi then Suc (continues n 128 191 s) else 0)"

text \<open>
  Whether a string starts with a whole character, and the length of the character or of the longest
  beginning of one.
\<close>

definition utf8_span :: "string \<Rightarrow> bool \<times> nat" where
  "utf8_span s =
     (case s of
        [] \<Rightarrow> (False, 0)
      | c # t \<Rightarrow>
          if char_code c < 128 then (True, 1)
          else (case utf8_lead (char_code c) of
                  None \<Rightarrow> (False, 1)
                | Some (w, lo, hi) \<Rightarrow>
                    let k = continues (w - 1) lo hi t in (k = w - 1, Suc k)))"

lemma utf8_span_pos: "s \<noteq> [] \<Longrightarrow> 0 < snd (utf8_span s)"
  by (auto simp: utf8_span_def Let_def split: list.splits option.splits)

lemma continues_le: "continues n lo hi s \<le> n" "continues n lo hi s \<le> length s"
  by (induction n lo hi s rule: continues.induct) auto

lemma utf8_span_le: "snd (utf8_span s) \<le> length s"
  using continues_le(2) by (auto simp: utf8_span_def Let_def split: list.splits option.splits)

lemma utf8_span_progress: "s \<noteq> [] \<Longrightarrow> length s - snd (utf8_span s) < length s"
  by (simp add: utf8_span_pos)

function utf8_valid :: "string \<Rightarrow> bool" where
  "utf8_valid s =
     (if s = [] then True
      else if fst (utf8_span s) then utf8_valid (drop (snd (utf8_span s)) s) else False)"
  by pat_completeness auto
termination
  by (relation "measure length") (simp_all add: utf8_span_progress)

declare utf8_valid.simps [simp del]

text \<open>U+FFFD stands in for every longest beginning of a character that is not completed.\<close>

definition replacement :: string where
  "replacement = [CHR 0xEF, CHR 0xBF, CHR 0xBD]"

function from_utf8_lossy :: "string \<Rightarrow> string" where
  "from_utf8_lossy s =
     (if s = [] then []
      else (if fst (utf8_span s) then take (snd (utf8_span s)) s else replacement)
        @ from_utf8_lossy (drop (snd (utf8_span s)) s))"
  by pat_completeness auto
termination
  by (relation "measure length") (simp_all add: utf8_span_progress)

declare from_utf8_lossy.simps [simp del]

lemma utf8_empty [simp]: "utf8_valid []" "from_utf8_lossy [] = []"
  by (simp_all add: utf8_valid.simps [of "[]"] from_utf8_lossy.simps [of "[]"])

section \<open>Validity\<close>

text \<open>A whole character at the front is seen whatever follows it.\<close>

lemma continues_append:
  "continues n lo hi s = n \<Longrightarrow> continues n lo hi (s @ t) = n"
  by (induction n lo hi s rule: continues.induct) (auto split: if_splits)

lemma continues_take: "continues n lo hi s = n \<Longrightarrow> continues n lo hi (take n s) = n"
  by (induction n lo hi s rule: continues.induct) (auto split: if_splits)

lemma utf8_span_append:
  "fst (utf8_span s) \<Longrightarrow> utf8_span (s @ t) = utf8_span s"
  using continues_append
  by (cases s) (auto simp: utf8_span_def Let_def split: option.splits if_splits)

lemma utf8_span_take:
  assumes "fst (utf8_span s)"
  shows "utf8_span (take (snd (utf8_span s)) s) = utf8_span s"
  using assms continues_take
  by (cases s) (auto simp: utf8_span_def Let_def split: option.splits if_splits)

lemma utf8_valid_step:
  "s \<noteq> [] \<Longrightarrow> utf8_valid s \<longleftrightarrow> fst (utf8_span s) \<and> utf8_valid (drop (snd (utf8_span s)) s)"
  by (simp add: utf8_valid.simps [of s])

lemma utf8_valid_append: "utf8_valid s \<Longrightarrow> utf8_valid t \<Longrightarrow> utf8_valid (s @ t)"
proof (induction s rule: utf8_valid.induct)
  case (1 s)
  show ?case
  proof (cases "s = []")
    case False
    with 1 have s: "fst (utf8_span s)" "utf8_valid (drop (snd (utf8_span s)) s)"
      by (auto simp: utf8_valid_step)
    with 1 False have "utf8_valid (drop (snd (utf8_span s)) s @ t)" by blast
    with s(1) False utf8_span_le [of s] show ?thesis
      by (simp add: utf8_valid_step [of "s @ t"] utf8_span_append)
  qed (use 1 in simp)
qed

lemma utf8_char_valid:
  assumes "fst (utf8_span s)"
  shows "utf8_valid (take (snd (utf8_span s)) s)"
proof -
  have "s \<noteq> []" using assms by (auto simp: utf8_span_def)
  with utf8_span_pos [of s] have "take (snd (utf8_span s)) s \<noteq> []" by auto
  with assms show ?thesis by (simp add: utf8_valid_step utf8_span_take)
qed

lemma replacement_valid: "utf8_valid replacement"
  by (simp add: replacement_def utf8_valid.simps [of "[CHR 0xEF, CHR 0xBF, CHR 0xBD]"]
      utf8_span_def utf8_lead_def char_code_def numeral_eq_Suc)

lemma lossy_valid: "utf8_valid (from_utf8_lossy s)"
proof (induction s rule: from_utf8_lossy.induct)
  case (1 s)
  then show ?case
    by (cases "s = []")
      (auto simp: from_utf8_lossy.simps [of s] intro: utf8_valid_append utf8_char_valid replacement_valid)
qed

lemma lossy_of_valid: "utf8_valid s \<Longrightarrow> from_utf8_lossy s = s"
proof (induction s rule: from_utf8_lossy.induct)
  case (1 s)
  then show ?case
    by (cases "s = []") (auto simp: from_utf8_lossy.simps [of s] utf8_valid_step)
qed

lemma ascii_valid: "list_all is_ascii s \<Longrightarrow> utf8_valid s"
proof (induction s)
  case (Cons c s)
  then show ?case
    by (simp add: utf8_valid_step [of "c # s"] utf8_span_def is_ascii_def)
qed simp

lemma lossy_ascii: "list_all is_ascii s \<Longrightarrow> from_utf8_lossy s = s"
  by (simp add: lossy_of_valid ascii_valid)

lemma find_SomeD: "find P xs = Some x \<Longrightarrow> x \<in> set xs \<and> P x"
  by (induction xs) (auto split: if_splits)

end
