(* ===== verification/Ssh_Hosts.thy ===== *)
theory Ssh_Hosts
  imports Utf8 Peer
begin

text \<open>
  How the daemon names hosts (\<^verbatim>\<open>src/src/daemon.rs\<close>): the destination of a running
  \<open>ssh\<close> command line, the normalisation of a host name, the scan of the process list at startup,
  and the registry key of an inbound connection. The process list, the name service and the text
  form of an IP address come from outside and are parameters.
\<close>

section \<open>SSH command lines\<close>

definition is_ssh_client_command :: "string \<Rightarrow> bool" where
  "is_ssh_client_command cmd \<longleftrightarrow> after_last (CHR ''/'') cmd = ''ssh''"

definition ssh_option_takes_value :: "string \<Rightarrow> bool" where
  "ssh_option_takes_value arg \<longleftrightarrow>
     arg \<in> {''-b'', ''-c'', ''-D'', ''-E'', ''-e'', ''-F'', ''-I'', ''-i'', ''-J'', ''-L'',
            ''-l'', ''-m'', ''-O'', ''-o'', ''-p'', ''-Q'', ''-R'', ''-S'', ''-W'', ''-w''}"

definition is_quote :: "char \<Rightarrow> bool" where
  "is_quote c \<longleftrightarrow> c = CHR 0x27 \<or> c = CHR 0x22"

definition is_host_char :: "char \<Rightarrow> bool" where
  "is_host_char c \<longleftrightarrow> is_ascii_alphanumeric c \<or> c = CHR ''.'' \<or> c = CHR ''-''"

definition strip_brackets :: "string \<Rightarrow> string" where
  "strip_brackets s =
     (case Option.bind (strip_prefix ''['' s) (strip_suffix '']'') of Some t \<Rightarrow> t | None \<Rightarrow> s)"

definition normalize_ssh_host :: "string \<Rightarrow> hostname option" where
  "normalize_ssh_host raw =
     (let unquoted = trim_matches is_quote raw;
          without_user = after_last (CHR ''@'') unquoted;
          without_brackets = strip_brackets without_user;
          host = to_ascii_lowercase (trim (before_first (CHR '':'') without_brackets))
      in if host = [] \<or> CHR ''/'' \<in> set host then None
         else if list_all is_host_char host then Some host
         else None)"

text \<open>The second loop of \<open>extract_ssh_destination_host\<close>, after \<^verbatim>\<open>--\<close>.\<close>

fun first_non_option :: "string list \<Rightarrow> hostname option" where
  "first_non_option [] = None"
| "first_non_option (arg # args) =
     (if starts_with ''-'' arg then first_non_option args else normalize_ssh_host arg)"

text \<open>
  The first loop. An option is sliced to its first two bytes before anything else, which panics
  if they end inside a character.
\<close>

function extract_ssh_destination_host :: "string list \<Rightarrow> panic + hostname option" where
  "extract_ssh_destination_host [] = Inr None"
| "extract_ssh_destination_host (arg # args) =
     (if arg = ''--'' then Inr (first_non_option args)
      else if starts_with ''-'' arg then
        (case slice_to arg (min (length arg) 2) of
           Inl p \<Rightarrow> Inl p
         | Inr short \<Rightarrow>
             let consumes_next =
                   ssh_option_takes_value arg
                   \<or> (length arg = 2 \<and> ssh_option_takes_value short)
             in extract_ssh_destination_host (if consumes_next then drop 1 args else args))
      else Inr (normalize_ssh_host arg))"
  by pat_completeness auto
termination
  by (relation "measure length") auto

section \<open>The process list at startup\<close>

text \<open>\<open>discover_local_aliases\<close>: the outputs of \<^verbatim>\<open>tailscale ip -4\<close> and \<^verbatim>\<open>hostname\<close>, where they ran.\<close>

definition resolve_tailscale_ip :: "string option \<Rightarrow> string option" where
  "resolve_tailscale_ip out =
     (case out of
        None \<Rightarrow> None
      | Some stdout \<Rightarrow> let ip = trim (from_utf8_lossy stdout) in if ip = [] then None else Some ip)"

definition discover_local_aliases :: "string option \<Rightarrow> string option \<Rightarrow> hostname set" where
  "discover_local_aliases tailscale_out hostname_out =
     {''localhost'', ''127.0.0.1''}
     \<union> (case resolve_tailscale_ip tailscale_out of
           Some ip \<Rightarrow> {to_ascii_lowercase ip} | None \<Rightarrow> {})
     \<union> (case hostname_out of
           None \<Rightarrow> {}
         | Some out \<Rightarrow>
             let h = to_ascii_lowercase (trim (from_utf8_lossy out)) in
             if h = [] then {} else {h, before_first (CHR ''.'') h})"

text \<open>One line of \<^verbatim>\<open>pgrep -a ssh\<close>: the process id and the destination to probe, if any.\<close>

definition pgrep_line :: "hostname set \<Rightarrow> string \<Rightarrow> panic + (hostname \<times> pid) option" where
  "pgrep_line self_aliases line =
     (case split_whitespace line of
        pid_str # cmd # arg # args \<Rightarrow>
          (case parse_u32 pid_str of
             None \<Rightarrow> Inr None
           | Some ssh_pid \<Rightarrow>
               if \<not> is_ssh_client_command cmd then Inr None
               else (case extract_ssh_destination_host (arg # args) of
                       Inl p \<Rightarrow> Inl p
                     | Inr None \<Rightarrow> Inr None
                     | Inr (Some h) \<Rightarrow>
                         if h \<in> self_aliases then Inr None else Inr (Some (h, ssh_pid))))
      | _ \<Rightarrow> Inr None)"

text \<open>The loop over the lines collects the process ids of each host; a panic ends the task.\<close>

fun hosts_to_probe ::
  "hostname set \<Rightarrow> string list \<Rightarrow> (hostname \<Rightarrow> pid set option)
     \<Rightarrow> panic + (hostname \<Rightarrow> pid set option)" where
  "hosts_to_probe al [] M = Inr M"
| "hosts_to_probe al (l # ls) M =
     (case pgrep_line al l of
        Inl p \<Rightarrow> Inl p
      | Inr None \<Rightarrow> hosts_to_probe al ls M
      | Inr (Some (h, i)) \<Rightarrow>
          hosts_to_probe al ls (M(h \<mapsto> insert i (case M h of None \<Rightarrow> {} | Some I \<Rightarrow> I))))"

definition discovered_sessions ::
  "hostname set \<Rightarrow> string \<Rightarrow> panic + (hostname \<Rightarrow> pid set option)" where
  "discovered_sessions al stdout = hosts_to_probe al (str_lines (from_utf8_lossy stdout)) Map.empty"

section \<open>The registry key of an inbound connection\<close>

definition normalize_peer_hostname :: "string \<Rightarrow> hostname" where
  "normalize_peer_hostname raw =
     (let trimmed = trim_end_matches (\<lambda>c. c = CHR ''.'') (trim raw) in
      case normalize_ssh_host trimmed of Some h \<Rightarrow> h | None \<Rightarrow> to_ascii_lowercase trimmed)"

definition short_name :: "hostname \<Rightarrow> hostname" where
  "short_name h = before_first (CHR ''.'') h"

definition host_resolves_to_ip ::
  "(string \<Rightarrow> 'ip option) \<Rightarrow> (hostname \<Rightarrow> 'ip list option) \<Rightarrow> hostname \<Rightarrow> 'ip \<Rightarrow> bool" where
  "host_resolves_to_ip parse_ip lookup_host h ip \<longleftrightarrow>
     parse_ip h = Some ip
     \<or> (case lookup_host h of Some addrs \<Rightarrow> ip \<in> set addrs | None \<Rightarrow> False)"

definition existing_peer_key_for_ip ::
  "(string \<Rightarrow> 'ip option) \<Rightarrow> (hostname \<Rightarrow> 'ip list option) \<Rightarrow> registry \<Rightarrow> 'ip \<Rightarrow> hostname option" where
  "existing_peer_key_for_ip parse_ip lookup_host r ip =
     find (\<lambda>h. host_resolves_to_ip parse_ip lookup_host h ip) (hostnames r)"

text \<open>The test whether a known key and a normalised reverse-DNS name denote the same host.\<close>

definition same_host :: "hostname \<Rightarrow> hostname \<Rightarrow> bool" where
  "same_host known normalized \<longleftrightarrow>
     (let normalized_short = short_name normalized;
          known_norm = normalize_peer_hostname known;
          known_short = short_name known_norm
      in known_norm = normalized \<or> known_short = normalized
         \<or> known_norm = normalized_short \<or> known_short = normalized_short)"

definition resolve_inbound_peer_key ::
  "(string \<Rightarrow> 'ip option) \<Rightarrow> ('ip \<Rightarrow> string) \<Rightarrow> (hostname \<Rightarrow> 'ip list option)
     \<Rightarrow> ('ip \<Rightarrow> string option) \<Rightarrow> registry \<Rightarrow> registry \<Rightarrow> 'ip \<Rightarrow> hostname" where
  "resolve_inbound_peer_key parse_ip show_ip lookup_host reverse_dns r r' ip =
     (case existing_peer_key_for_ip parse_ip lookup_host r ip of
        Some existing \<Rightarrow> existing
      | None \<Rightarrow>
          (case reverse_dns ip of
             None \<Rightarrow> show_ip ip
           | Some reverse_host \<Rightarrow>
               let normalized = normalize_peer_hostname reverse_host in
               (case find (\<lambda>known. same_host known normalized) (hostnames r') of
                  Some known \<Rightarrow> known
                | None \<Rightarrow> normalized)))"

section \<open>Normal forms of host names\<close>

text \<open>A canonical name: not empty, lower-case letters, digits, dots and hyphens only.\<close>

definition canonical :: "string \<Rightarrow> bool" where
  "canonical h \<longleftrightarrow> h \<noteq> [] \<and>
     list_all (\<lambda>c. is_host_char c \<and> \<not> (65 \<le> char_code c \<and> char_code c \<le> 90)) h"

lemma lower_not_upper: "\<not> (65 \<le> char_code (ascii_lower c) \<and> char_code (ascii_lower c) \<le> 90)"
  by (simp add: char_code_lower)

lemma host_char_code:
  "is_host_char c \<Longrightarrow> char_code c \<in> {45, 46} \<union> {48..57} \<union> {65..90} \<union> {97..122}"
  by (auto simp: is_host_char_def is_ascii_alphanumeric_def is_digit_def char_code_def)

lemma trim_host: "list_all is_host_char s \<Longrightarrow> trim s = s"
  by (rule trim_printable)
    (auto simp: printable_def list_all_iff dest!: bspec dest: host_char_code)

lemma host_char_not_special:
  "is_host_char c \<Longrightarrow> \<not> is_quote c \<and> c \<noteq> CHR ''@'' \<and> c \<noteq> CHR '':'' \<and> c \<noteq> CHR ''/'' \<and> c \<noteq> CHR ''[''"
  using host_char_code [of c] by (auto simp: is_quote_def char_code_def)

lemma trim_matches_none: "list_all (\<lambda>c. \<not> P c) s \<Longrightarrow> trim_matches P s = s"
proof -
  assume P: "list_all (\<lambda>c. \<not> P c) s"
  have "dropWhile P t = t" if "list_all (\<lambda>c. \<not> P c) t" for t
    using that by (cases t) auto
  from this [OF P] this [of "rev s"] P show ?thesis
    by (simp add: trim_matches_def trim_end_matches_def list_all_iff)
qed

lemma takeWhile_none: "c \<notin> set s \<Longrightarrow> takeWhile (\<lambda>x. x \<noteq> c) s = s"
  by (induction s) auto

lemma after_last_none: "c \<notin> set s \<Longrightarrow> after_last c s = s"
  by (simp add: after_last_def takeWhile_none)

lemma before_first_none: "c \<notin> set s \<Longrightarrow> before_first c s = s"
  by (simp add: before_first_def takeWhile_none)

lemma before_first_append [simp]: "c \<notin> set s \<Longrightarrow> before_first c (s @ c # t) = s"
  by (simp add: before_first_def takeWhile_append)

lemma after_last_append [simp]: "c \<notin> set t \<Longrightarrow> after_last c (s @ c # t) = t"
  by (simp add: after_last_def takeWhile_append)

lemma canonical_host: "canonical h \<Longrightarrow> list_all is_host_char h"
  by (simp add: canonical_def list_all_iff)

lemma lowercase_canonical: "canonical h \<Longrightarrow> to_ascii_lowercase h = h"
  by (auto simp: canonical_def to_ascii_lowercase_def ascii_lower_def list_all_iff intro!: map_idI)

lemma normalize_host_parts:
  assumes "list_all is_host_char h" and "h \<noteq> []"
    and "CHR ''@'' \<notin> set h'" and "h' = h \<or> (\<exists>t. h' = h @ CHR '':'' # t)"
    and "trim_matches is_quote raw = h' \<or> (\<exists>u. trim_matches is_quote raw = u @ CHR ''@'' # h')"
  shows "normalize_ssh_host raw = Some (to_ascii_lowercase h)"
proof -
  have h: "CHR '':'' \<notin> set h" "CHR ''/'' \<notin> set h" "CHR ''['' \<notin> set h"
    using assms(1) host_char_not_special by (auto simp: list_all_iff)
  have "hd h' = hd h" "h' \<noteq> []" using assms(2,4) by auto
  moreover have "hd h \<in> set h" using \<open>h \<noteq> []\<close> by simp
  ultimately have "\<not> starts_with ''['' h'"
    using h(3) by (cases h') (auto simp: starts_with_def)
  then have "strip_brackets h' = h'" by (simp add: strip_brackets_def strip_prefix_def)
  moreover have "after_last (CHR ''@'') (trim_matches is_quote raw) = h'"
    using assms(3,5) by (auto simp: after_last_none)
  moreover have "before_first (CHR '':'') h' = h" using assms(4) h(1) by (auto simp: before_first_none)
  moreover have "is_host_char (ascii_lower c)" if "is_host_char c" for c
  proof (cases "65 \<le> char_code c \<and> char_code c \<le> 90")
    case True
    then have "97 \<le> char_code (ascii_lower c) \<and> char_code (ascii_lower c) \<le> 122"
      by (simp add: char_code_lower)
    then show ?thesis by (simp add: is_host_char_def is_ascii_alphanumeric_def)
  qed (use that in \<open>auto simp: ascii_lower_def\<close>)
  then have "list_all is_host_char (to_ascii_lowercase h)"
    using assms(1) by (simp add: to_ascii_lowercase_def list_all_iff)
  moreover from this have "CHR ''/'' \<notin> set (to_ascii_lowercase h)"
    using host_char_not_special by (auto simp: list_all_iff)
  ultimately show ?thesis
    using \<open>h \<noteq> []\<close> trim_host [OF assms(1)]
    by (simp add: normalize_ssh_host_def Let_def) (simp add: to_ascii_lowercase_def)
qed

lemma canonical_nonempty: "canonical h \<Longrightarrow> h \<noteq> []"
  by (simp add: canonical_def)

lemma normalize_ssh_host_parts:
  assumes "canonical h" and "CHR ''@'' \<notin> set h'" and "h' = h \<or> (\<exists>t. h' = h @ CHR '':'' # t)"
    and "trim_matches is_quote raw = h' \<or> (\<exists>u. trim_matches is_quote raw = u @ CHR ''@'' # h')"
  shows "normalize_ssh_host raw = Some h"
  using normalize_host_parts [OF canonical_host [OF assms(1)] canonical_nonempty [OF assms(1)] assms(2-4)]
  by (simp add: lowercase_canonical assms(1))

lemma normalize_canonical: "canonical h \<Longrightarrow> normalize_ssh_host h = Some h"
proof (rule normalize_ssh_host_parts [of h h])
  assume h: "canonical h"
  from canonical_host [OF h] show "CHR ''@'' \<notin> set h"
    using host_char_not_special by (auto simp: list_all_iff)
  have "trim_matches is_quote h = h"
    by (rule trim_matches_none)
      (use canonical_host [OF h] host_char_not_special in \<open>auto simp: list_all_iff\<close>)
  then show "trim_matches is_quote h = h \<or> (\<exists>u. trim_matches is_quote h = u @ CHR ''@'' # h)" ..
qed simp_all

lemma normalize_ssh_host_canonical: "normalize_ssh_host raw = Some h \<Longrightarrow> canonical h"
  using lower_not_upper
  by (auto simp: normalize_ssh_host_def Let_def canonical_def to_ascii_lowercase_def list_all_iff
      split: if_splits)

end
