(* ===== verification/Ssh_Properties.thy ===== *)
theory Ssh_Properties
  imports Ssh_Hosts
begin

text \<open>
  What the naming of hosts guarantees: canonical, idempotent normal forms, no panic on ASCII input,
  and which names count as one host. Some lemmas show where the code falls short of what it promises. The command lines that the scan at startup reads are the subject of \<open>Process_List\<close>.
\<close>

section \<open>Normal forms\<close>

text \<open>
  Whatever \<open>normalize_ssh_host\<close> accepts, its result is a non-empty name of lower-case letters,
  digits, dots and hyphens, and normalising it again changes nothing.
\<close>
theorem normalize_result_stable:
  assumes "normalize_ssh_host raw = Some h"
  shows "canonical h \<and> normalize_ssh_host h = Some h"
  using normalize_ssh_host_canonical [OF assms] normalize_canonical by blast

lemma quotes_before_user: "list_all is_host_char h \<Longrightarrow> h \<noteq> [] \<Longrightarrow>
    trim_matches is_quote (u @ CHR ''@'' # h) = dropWhile is_quote u @ CHR ''@'' # h"
proof -
  assume h: "list_all is_host_char h" "h \<noteq> []"
  then have "last h \<in> set h" by simp
  with h(1) have "\<not> is_quote (last h)" using host_char_not_special by (auto simp: list_all_iff)
  then have end_ok: "dropWhile is_quote (rev h @ t) = rev h @ t" for t
    using h(2) by (cases h rule: rev_cases) auto
  moreover have "dropWhile is_quote (u @ CHR ''@'' # h) = dropWhile is_quote u @ CHR ''@'' # h"
    by (induction u) (simp_all add: is_quote_def)
  ultimately show ?thesis by (simp add: trim_matches_def trim_end_matches_def)
qed

lemma normalize_host:
  assumes h: "list_all is_host_char h" "h \<noteq> []"
  shows "normalize_ssh_host h = Some (to_ascii_lowercase h)"
    and "normalize_ssh_host (u @ CHR ''@'' # h) = Some (to_ascii_lowercase h)"
proof -
  have at: "CHR ''@'' \<notin> set h" "list_all (\<lambda>c. \<not> is_quote c) h"
    using h(1) host_char_not_special by (auto simp: list_all_iff)
  note parts = normalize_host_parts [OF h at(1)]
  show "normalize_ssh_host h = Some (to_ascii_lowercase h)"
    by (rule parts) (simp_all add: trim_matches_none [OF at(2)])
  show "normalize_ssh_host (u @ CHR ''@'' # h) = Some (to_ascii_lowercase h)"
    by (rule parts) (auto simp: quotes_before_user [OF h])
qed

lemma canonical_server: "canonical ''server''" "canonical ''example.com''" "canonical ''db''"
    "canonical ''db.prod''" "canonical ''db.test''" "canonical ''fe80''"
  by (simp_all add: canonical_def is_host_char_def is_ascii_alphanumeric_def is_digit_def
      char_code_def)

section \<open>The destination of a command line\<close>

lemma slice_ascii: "list_all is_ascii s \<Longrightarrow> slice_to s (min (length s) k) = Inr (take k s)"
  by (auto simp: slice_to_def is_char_boundary_def is_ascii_def list_all_length min_def)

lemma extract_option:
  assumes "starts_with ''-'' a" and "a \<noteq> ''--''" and "list_all is_ascii a"
  shows "extract_ssh_destination_host (a # args) =
    extract_ssh_destination_host (if ssh_option_takes_value a then drop 1 args else args)"
  using assms by (auto simp: slice_ascii Let_def)

declare extract_ssh_destination_host.simps(2) [simp del]

lemma extract_destination:
  "\<not> starts_with ''-'' d \<Longrightarrow> extract_ssh_destination_host (d # args) = Inr (normalize_ssh_host d)"
  by (auto simp: extract_ssh_destination_host.simps(2) starts_with_def)

lemma extract_after_dashes:
  "\<not> starts_with ''-'' d \<Longrightarrow>
   extract_ssh_destination_host (''--'' # d # args) = Inr (normalize_ssh_host d)"
  by (simp add: extract_ssh_destination_host.simps(2))

text \<open>
  Options that the table leaves out make the daemon take the option's value for the
  destination: \<^verbatim>\<open>ssh -B eth0 server\<close> and \<^verbatim>\<open>ssh -vp 2222 server\<close> are read as sessions to the hosts
  \<^verbatim>\<open>eth0\<close> and \<^verbatim>\<open>2222\<close>.
\<close>
theorem option_value_taken_for_host:
  "extract_ssh_destination_host [''-B'', ''eth0'', ''server''] = Inr (Some ''eth0'')
   \<and> extract_ssh_destination_host [''-vp'', ''2222'', ''server''] = Inr (Some ''2222'')"
proof -
  have "canonical ''eth0''" "canonical ''2222''"
    by (simp_all add: canonical_def is_host_char_def is_ascii_alphanumeric_def is_digit_def
        char_code_def)
  then show ?thesis
    by (simp add: extract_option extract_destination normalize_canonical starts_with_def
        is_ascii_def char_code_def ssh_option_takes_value_def)
qed

text \<open>
  An IPv6 destination without brackets is cut at its first colon, so every such address whose
  first group is \<^verbatim>\<open>fe80\<close> is one host.
\<close>
theorem ipv6_destination_truncated:
  "extract_ssh_destination_host (''me@fe80::1'' # args) = Inr (Some ''fe80'')
   \<and> extract_ssh_destination_host (''me@fe80::2'' # args) = Inr (Some ''fe80'')"
proof -
  have "normalize_ssh_host (''me@fe80:'' @ t) = Some ''fe80''" if "t = '':1'' \<or> t = '':2''" for t
  proof (rule normalize_ssh_host_parts [of _ "''fe80:'' @ t"])
    show "canonical ''fe80''" by (rule canonical_server)
    have "trim_matches is_quote (''me@fe80:'' @ t) = ''me@fe80:'' @ t"
      using that by (auto simp: trim_matches_def trim_end_matches_def is_quote_def)
    then show "trim_matches is_quote (''me@fe80:'' @ t) = ''fe80:'' @ t
        \<or> (\<exists>u. trim_matches is_quote (''me@fe80:'' @ t) = u @ CHR ''@'' # ''fe80:'' @ t)"
      by (intro disjI2 exI [of _ "''me''"]) simp
  qed (use that in auto)
  from this [of "'':1''"] this [of "'':2''"] show ?thesis
    by (simp add: extract_destination starts_with_def)
qed

section \<open>The scan at startup\<close>

lemma trim_start_subset: "set (trim_start s) \<subseteq> set s"
proof (induction s rule: trim_start.induct)
  case (1 s)
  then show ?case
    using set_drop_subset [of "ws_len s" s]
    by (cases "ws_len s = 0") (auto simp: trim_start.simps [of s])
qed

lemma span_word_append: "fst (span_word s) @ snd (span_word s) = s"
  by (induction s) (auto split: prod.splits)

lemma split_whitespace_subset: "w \<in> set (split_whitespace s) \<Longrightarrow> set w \<subseteq> set s"
proof (induction s arbitrary: w rule: split_whitespace.induct)
  case (1 s)
  let ?t = "trim_start s"
  from 1 have "set w \<subseteq> set ?t"
    using arg_cong [OF span_word_append [of ?t], of set]
    by (cases "?t = []") (auto simp: split_whitespace.simps [of s])
  with trim_start_subset show ?case by blast
qed

lemma extract_ascii:
  "\<forall>a \<in> set args. list_all is_ascii a \<Longrightarrow> \<exists>r. extract_ssh_destination_host args = Inr r"
proof (induction args rule: length_induct)
  case (1 args)
  show ?case
  proof (cases args)
    case (Cons a as)
    consider "a = ''--''" | "a \<noteq> ''--''" "starts_with ''-'' a" | "\<not> starts_with ''-'' a"
      by blast
    then show ?thesis
    proof cases
      case 2
      let ?rest = "if ssh_option_takes_value a then drop 1 as else as"
      have "\<forall>b \<in> set ?rest. list_all is_ascii b" "length ?rest < length args"
        using "1.prems" set_drop_subset [of 1 as] by (auto simp: Cons)
      with "1.IH" have "\<exists>r. extract_ssh_destination_host ?rest = Inr r" by blast
      with 2 "1.prems" show ?thesis by (simp add: Cons extract_option)
    qed (simp_all add: Cons extract_destination extract_ssh_destination_host.simps(2))
  qed simp
qed

lemma lines_from_subset:
  "l \<in> set (lines_from acc s) \<Longrightarrow> set l \<subseteq> set acc \<union> set s"
proof (induction acc s rule: lines_from.induct)
  case (2 acc c s)
  have "set (strip_cr (rev acc)) \<subseteq> set acc"
    using set_take_subset [of _ "rev acc"]
    by (auto simp: strip_cr_def strip_suffix_def split: option.splits if_splits)
  with 2 show ?case by (auto split: if_splits)
qed (auto split: if_splits)

lemma str_lines_ascii: "list_all is_ascii s \<Longrightarrow> l \<in> set (str_lines s) \<Longrightarrow> list_all is_ascii l"
  using lines_from_subset [of l "[]" s] by (auto simp: str_lines_def list_all_iff)

lemma pgrep_line_ascii:
  assumes "list_all is_ascii line"
  shows "\<exists>r. pgrep_line al line = Inr r"
proof (cases "\<exists>i c a as. split_whitespace line = i # c # a # as")
  case True
  then obtain i c a as where ws: "split_whitespace line = i # c # a # as" by blast
  have "\<forall>w \<in> set (a # as). list_all is_ascii w"
    using assms split_whitespace_subset [of _ line] by (auto simp: ws list_all_iff)
  from extract_ascii [OF this] show ?thesis
    by (auto simp: pgrep_line_def ws split: option.splits)
next
  case False
  then show ?thesis by (auto simp: pgrep_line_def split: list.splits)
qed

lemma hosts_to_probe_total:
  "\<forall>l \<in> set ls. \<exists>r. pgrep_line al l = Inr r \<Longrightarrow> \<exists>M'. hosts_to_probe al ls M = Inr M'"
  by (induction ls arbitrary: M) (auto split: option.splits)

definition pids_of :: "(hostname \<Rightarrow> pid set option) \<Rightarrow> hostname \<Rightarrow> pid set" where
  "pids_of M h = (case M h of None \<Rightarrow> {} | Some I \<Rightarrow> I)"

lemma pids_of_empty [simp]: "pids_of Map.empty h = {}"
  by (simp add: pids_of_def)

lemma hosts_to_probe_exact:
  "hosts_to_probe al ls M = Inr M' \<Longrightarrow>
     (i \<in> pids_of M' h \<longleftrightarrow> i \<in> pids_of M h \<or> (\<exists>l \<in> set ls. pgrep_line al l = Inr (Some (h, i))))"
proof (induction ls arbitrary: M)
  case (Cons l ls)
  show ?case
  proof (cases "pgrep_line al l")
    case (Inr r)
    show ?thesis
    proof (cases r)
      case None
      with Cons Inr show ?thesis by auto
    next
      case (Some hi)
      obtain g j where "hi = (g, j)" by (cases hi)
      with Cons.prems Inr Some have "hosts_to_probe al ls (M(g \<mapsto> insert j (pids_of M g))) = Inr M'"
        by (simp add: pids_of_def)
      from Cons.IH [OF this] have "i \<in> pids_of M' h \<longleftrightarrow>
          h = g \<and> i = j \<or> i \<in> pids_of M h
          \<or> (\<exists>l \<in> set ls. pgrep_line al l = Inr (Some (h, i)))"
        by (auto simp: pids_of_def)
      with Inr Some \<open>hi = (g, j)\<close> show ?thesis by auto
    qed
  qed (use Cons in auto)
qed simp

lemma hosts_to_probe_nonempty:
  "hosts_to_probe al ls M = Inr M' \<Longrightarrow> \<forall>h. M h \<noteq> Some {} \<Longrightarrow> M' h \<noteq> Some {}"
proof (induction ls arbitrary: M)
  case (Cons l ls)
  show ?case
  proof (cases "pgrep_line al l")
    case (Inr r)
    then show ?thesis
      using Cons by (cases r) (auto split: option.splits prod.splits)
  qed (use Cons in auto)
qed simp

lemma extract_canonical:
  "extract_ssh_destination_host args = Inr (Some h) \<Longrightarrow> canonical h"
proof (induction args rule: extract_ssh_destination_host.induct)
  case (2 arg args)
  have "first_non_option as = Some h \<Longrightarrow> canonical h" for as
    by (induction as) (auto split: if_splits dest: normalize_ssh_host_canonical)
  with 2 show ?case
    by (auto simp: extract_ssh_destination_host.simps(2) Let_def
        split: if_splits sum.splits dest: normalize_ssh_host_canonical)
qed simp

lemma pgrep_line_host:
  "pgrep_line al l = Inr (Some (h, i)) \<Longrightarrow> canonical h \<and> h \<notin> al"
  by (auto simp: pgrep_line_def extract_canonical split: list.splits option.splits if_splits sum.splits)

lemma discovered_total:
  "list_all is_ascii stdout \<Longrightarrow> \<exists>M. discovered_sessions al stdout = Inr M"
  unfolding discovered_sessions_def
  by (simp only: lossy_ascii, rule hosts_to_probe_total) (use pgrep_line_ascii str_lines_ascii in blast)

lemma scanned_host:
  assumes "hosts_to_probe al ls Map.empty = Inr M" and "M h \<noteq> None"
  shows "pids_of M h \<noteq> {} \<and> canonical h \<and> h \<notin> al"
proof -
  have "pids_of M h \<noteq> {}"
    using assms(2) hosts_to_probe_nonempty [OF assms(1), of h] by (auto simp: pids_of_def)
  moreover have "i \<in> pids_of M h \<Longrightarrow> canonical h \<and> h \<notin> al" for i
    using hosts_to_probe_exact [OF assms(1)] pgrep_line_host by (fastforce simp: pids_of_def)
  ultimately show ?thesis by blast
qed

text \<open>
  An option whose second byte starts a multi-byte character makes the scan panic, whatever the
  remaining lines say: the slice of two bytes ends inside the character.
\<close>
theorem scan_panics_on_multibyte_option:
  "extract_ssh_destination_host ([CHR ''-'', CHR 0xC3, CHR 0xA9] # args) = Inl SliceNotAtBoundary
   \<and> discovered_sessions al (''7 ssh -'' @ [CHR 0xC3, CHR 0xA9] @ '' db'') = Inl SliceNotAtBoundary"
proof -
  have panics: "extract_ssh_destination_host ([CHR ''-'', CHR 0xC3, CHR 0xA9] # as)
      = Inl SliceNotAtBoundary" for as
    by (simp add: extract_ssh_destination_host.simps(2) starts_with_def slice_to_def
        is_char_boundary_def char_code_def)
  have one_line: "str_lines (''7 ssh -'' @ [CHR 0xC3, CHR 0xA9] @ '' db'')
      = [''7 ssh -'' @ [CHR 0xC3, CHR 0xA9] @ '' db'']"
    by (simp add: str_lines_def)
  have words: "split_whitespace (''7 ssh -'' @ [CHR 0xC3, CHR 0xA9] @ '' db'')
      = [''7'', ''ssh'', [CHR ''-'', CHR 0xC3, CHR 0xA9], ''db'']"
    by code_simp
  have "parse_u32 ''7'' = Some 7"
    by (simp add: parse_u32_def is_digit_def char_code_def)
  moreover have decoded: "from_utf8_lossy (''7 ssh -'' @ [CHR 0xC3, CHR 0xA9] @ '' db'')
      = ''7 ssh -'' @ [CHR 0xC3, CHR 0xA9] @ '' db''"
    by code_simp
  ultimately show ?thesis
    using panics
    by (simp only: discovered_sessions_def decoded one_line hosts_to_probe.simps pgrep_line_def words)
      (simp add: is_ssh_client_command_def after_last_def)
qed

section \<open>The key of an inbound connection\<close>

text \<open>
  An inbound connection is booked on a known host whenever one of the known hosts resolves to
  its address, or else the reverse name of the address denotes a known host: the key found is a
  registered one with that very property. So no second entry is made for a host that is known.
\<close>
theorem inbound_key_reuses_known_host:
  assumes "(\<exists>h \<in> set (hostnames r). host_resolves_to_ip parse_ip lookup h ip)
    \<or> (\<exists>name. reverse_dns ip = Some name
          \<and> (\<exists>h \<in> set (hostnames r'). same_host h (normalize_peer_hostname name)))"
    and "k = resolve_inbound_peer_key parse_ip show_ip lookup reverse_dns r r' ip"
  shows "(k \<in> set (hostnames r) \<and> host_resolves_to_ip parse_ip lookup k ip)
    \<or> (k \<in> set (hostnames r') \<and> (\<forall>h \<in> set (hostnames r). \<not> host_resolves_to_ip parse_ip lookup h ip)
        \<and> (\<exists>name. reverse_dns ip = Some name \<and> same_host k (normalize_peer_hostname name)))"
proof (cases "existing_peer_key_for_ip parse_ip lookup r ip")
  case (Some e)
  then show ?thesis
    using assms(2) find_SomeD [OF Some [unfolded existing_peer_key_for_ip_def]]
    by (simp add: resolve_inbound_peer_key_def)
next
  case None
  then have none: "\<forall>h \<in> set (hostnames r). \<not> host_resolves_to_ip parse_ip lookup h ip"
    by (auto simp: existing_peer_key_for_ip_def find_None_iff)
  with assms(1) obtain name h where name: "reverse_dns ip = Some name"
    and h: "h \<in> set (hostnames r')" "same_host h (normalize_peer_hostname name)" by blast
  then obtain e where e: "find (\<lambda>known. same_host known (normalize_peer_hostname name)) (hostnames r') = Some e"
    by (cases "find (\<lambda>known. same_host known (normalize_peer_hostname name)) (hostnames r')")
      (auto simp: find_None_iff)
  with None name assms(2) have "k = e" by (simp add: resolve_inbound_peer_key_def Let_def)
  with find_SomeD [OF e] name none show ?thesis by blast
qed

lemma short_name_idem [simp]: "short_name (short_name h) = short_name h"
  by (simp add: short_name_def before_first_def)

lemma same_host_short:
  "same_host known name \<longleftrightarrow> short_name (normalize_peer_hostname known) = short_name name"
proof -
  have "short_name h = n \<Longrightarrow> short_name n = n" for h n
    by (metis short_name_idem)
  then show ?thesis by (auto simp: same_host_def Let_def)
qed

text \<open>
  The four comparisons of the reverse-DNS loop amount to one: a known key and a reverse name
  denote the same host iff their first labels agree.
\<close>
theorem same_host_iff_first_label:
  "same_host known name \<longleftrightarrow> short_name (normalize_peer_hostname known) = short_name name"
  by (rule same_host_short)

lemma normalize_peer_canonical:
  assumes h: "canonical h" and "last h \<noteq> CHR ''.''"
  shows "normalize_peer_hostname h = h" and "normalize_peer_hostname (h @ ''.'') = h"
proof -
  have dot: "is_host_char (CHR ''.'')" by (simp add: is_host_char_def)
  have "trim h = h" "trim (h @ ''.'') = h @ ''.''"
    using trim_host canonical_host [OF h] dot by simp_all
  moreover have "dropWhile (\<lambda>c. c = CHR ''.'') (rev h) = rev h"
    using assms by (cases "rev h") (auto simp: last_rev hd_rev dest: arg_cong [of _ _ rev])
  ultimately show "normalize_peer_hostname h = h" and "normalize_peer_hostname (h @ ''.'') = h"
    by (simp_all add: normalize_peer_hostname_def trim_end_matches_def Let_def
        normalize_canonical [OF h])
qed

text \<open>
  Two hosts of different domains with the same first label are taken for one: an inbound
  connection from \<^verbatim>\<open>db.test\<close> is booked on the registered host \<^verbatim>\<open>db.prod\<close>, which does not resolve
  to the address.
\<close>
theorem first_label_conflates_hosts:
  "resolve_inbound_peer_key (\<lambda>_. None) show_ip (\<lambda>h. if h = ''db.prod'' then Some [8] else None)
     (\<lambda>ip. Some ''db.test'') [(''db.prod'', p)] [(''db.prod'', p)] (9 :: nat) = ''db.prod''"
proof -
  have "same_host ''db.prod'' (normalize_peer_hostname ''db.test'')"
    by (simp add: same_host_short normalize_peer_canonical canonical_server)
      (simp add: short_name_def before_first_def)
  then show ?thesis
    by (simp add: resolve_inbound_peer_key_def existing_peer_key_for_ip_def hostnames_def
        host_resolves_to_ip_def Let_def)
qed

end
