(* ===== verification/Inbound_Keys.thy ===== *)
theory Inbound_Keys
  imports Ssh_Properties Handlers
begin

text \<open>
  The registry keys of inbound connections, from \<open>resolve_inbound_peer_key\<close> to the entry that the
  connection makes (\<open>run_tcp_server\<close> in \<^verbatim>\<open>src/src/daemon.rs\<close>): the spellings of a host share a key, and
  a peer without a name keeps its key.
\<close>






text \<open>
  A peer whose address has no name is booked under the text of the address, and stays there:
  once that key is in the registry, every later connection from the address is booked on it, even
  if the address has a name by then, unless another known host resolves to the address. (The
  hypothesis on the text of the address is the documented round trip of its parser.)
\<close>
theorem nameless_peer_keeps_key:
  assumes "parse_ip (show_ip ip) = Some ip"
    and "existing_peer_key_for_ip parse_ip lookup r ip = None" and "reverse_dns ip = None"
    and "k = resolve_inbound_peer_key parse_ip show_ip lookup reverse_dns r r' ip"
    and "r2 = inbound_opened k r1"
    and "list_all (\<lambda>h. h = k \<or> \<not> host_resolves_to_ip parse_ip lookup2 h ip) (hostnames r2)"
  shows "k = show_ip ip \<and> resolve_inbound_peer_key parse_ip show_ip lookup2 reverse_dns2 r2 r2' ip = k"
proof -
  have k: "k = show_ip ip"
    using assms(2-4) by (simp add: resolve_inbound_peer_key_def)
  then have "host_resolves_to_ip parse_ip lookup2 k ip"
    using assms(1) by (simp add: host_resolves_to_ip_def)
  moreover have "k \<in> set (hostnames r2)"
    by (auto simp: assms(5) inbound_opened_def reg.hosts_upd reg.hosts_look reg.look_ensure)
  ultimately have "find (\<lambda>h. host_resolves_to_ip parse_ip lookup2 h ip) (hostnames r2) \<noteq> None"
    by (auto simp: find_None_iff)
  then have "existing_peer_key_for_ip parse_ip lookup2 r2 ip = Some k"
    using assms(6) by (auto simp: existing_peer_key_for_ip_def list_all_iff dest: find_SomeD)
  with k show ?thesis by (simp add: resolve_inbound_peer_key_def)
qed

end
