(* ===== verification/Ip_Addr.thy ===== *)
theory Ip_Addr
  imports Ssh_Properties Protocol
begin

text \<open>
  The reverse lookup of \<^verbatim>\<open>src/src/daemon.rs\<close>: the socket address structures of
  \<open>reverse_dns_lookup_blocking\<close> and its call of \<open>getnameinfo\<close>, which is a parameter. The text of an
  address, which the standard library prints and reads, is a pair of parameters of \<open>Ssh_Hosts\<close>.
\<close>

section \<open>Addresses\<close>

text \<open>The octets of an IPv4 address; an IPv6 address as a number.\<close>

datatype IpAddr = V4 byte byte byte byte | V6 "128 word"

definition octets6 :: "128 word \<Rightarrow> bytes" where
  "octets6 a = map (\<lambda>i. ucast (drop_bit (120 - 8 * i) a)) [0..<16]"

section \<open>The reverse lookup\<close>

text \<open>
  \<open>u32::from_ne_bytes\<close> on a machine of either byte order, and the bytes that such a number has in
  memory.
\<close>

definition from_ne_bytes :: "bool \<Rightarrow> byte \<Rightarrow> byte \<Rightarrow> byte \<Rightarrow> byte \<Rightarrow> u32" where
  "from_ne_bytes little a b c d =
     (if little then u32_from_be_bytes d c b a else u32_from_be_bytes a b c d)"

definition in_memory :: "bool \<Rightarrow> u32 \<Rightarrow> bytes" where
  "in_memory little n = (if little then rev (u32_to_be_bytes n) else u32_to_be_bytes n)"

definition AF_INET :: "16 word" where "AF_INET = 2"
definition AF_INET6 :: "16 word" where "AF_INET6 = 10"
definition NI_MAXHOST :: nat where "NI_MAXHOST = 1025"
definition NI_NAMEREQD :: int where "NI_NAMEREQD = 8"

record sockaddr_in =
  sin_family :: "16 word"
  sin_port :: "16 word"
  sin_addr :: u32
  sin_zero :: bytes

record sockaddr_in6 =
  sin6_family :: "16 word"
  sin6_port :: "16 word"
  sin6_flowinfo :: u32
  sin6_addr :: bytes
  sin6_scope_id :: u32

datatype sockaddr = SockaddrIn sockaddr_in | SockaddrIn6 sockaddr_in6

definition sockaddr_of :: "bool \<Rightarrow> IpAddr \<Rightarrow> sockaddr" where
  "sockaddr_of little ip =
     (case ip of
        V4 a b c d \<Rightarrow> SockaddrIn \<lparr>sin_family = AF_INET, sin_port = 0,
          sin_addr = from_ne_bytes little a b c d, sin_zero = replicate 8 0\<rparr>
      | V6 addr \<Rightarrow> SockaddrIn6 \<lparr>sin6_family = AF_INET6, sin6_port = 0, sin6_flowinfo = 0,
          sin6_addr = octets6 addr, sin6_scope_id = 0\<rparr>)"

text \<open>The address stands in memory in network order on either machine, as the C library expects.\<close>

lemma sin_addr_in_network_order:
  "sockaddr_of little (V4 a b c d) = SockaddrIn sa \<Longrightarrow> in_memory little (sin_addr sa) = [a, b, c, d]"
  by (auto simp: sockaddr_of_def from_ne_bytes_def in_memory_def codec_simps)

text \<open>
  \<open>CStr::from_ptr(..).to_string_lossy()\<close>: the bytes up to the first zero. A buffer without one would
  be read beyond its end; \<open>getnameinfo\<close> terminates the name when it succeeds.
\<close>

definition c_string :: "bytes \<Rightarrow> string" where
  "c_string buf = from_utf8_lossy (map (\<lambda>b. char_of (unat b)) (takeWhile (\<lambda>b. b \<noteq> 0) buf))"

text \<open>
  \<open>getnameinfo sa buf flags\<close> returns its result code and the buffer it has filled in.
\<close>

definition reverse_dns_lookup_blocking ::
  "(sockaddr \<Rightarrow> bytes \<Rightarrow> int \<Rightarrow> int \<times> bytes) \<Rightarrow> bool \<Rightarrow> IpAddr \<Rightarrow> string option" where
  "reverse_dns_lookup_blocking getnameinfo little peer_ip =
     (let host_buf = replicate NI_MAXHOST 0;
          (rc, host_buf) = getnameinfo (sockaddr_of little peer_ip) host_buf NI_NAMEREQD in
      if rc \<noteq> 0 then None
      else let host = trim (c_string host_buf) in
        if host = [] then None else Some host)"

text \<open>The blocking task may fail to be joined, which counts as no name.\<close>

definition reverse_dns_lookup ::
  "(sockaddr \<Rightarrow> bytes \<Rightarrow> int \<Rightarrow> int \<times> bytes) \<Rightarrow> bool \<Rightarrow> bool \<Rightarrow> IpAddr \<Rightarrow> string option" where
  "reverse_dns_lookup getnameinfo little joined peer_ip =
     (if joined then reverse_dns_lookup_blocking getnameinfo little peer_ip else None)"

end
