(* ===== verification/Run_Daemon.thy ===== *)
theory Run_Daemon
  imports Startup_Properties Inbound_Keys Ip_Addr
begin

text \<open>
  \<open>run_daemon\<close> from start to end (\<^verbatim>\<open>src/src/daemon.rs\<close>): the services it spawns, its loop over IPC
  connections and signals beside the monitor of its display (\<open>Display\<close>), which may respawn Xvfb or end
  the whole process, the cleanup, the TCP server, and the ticks of the reconciler. What the
  services do to the registry are the steps of \<open>Daemon\<close>; here is when they run.
\<close>

section \<open>The main loop\<close>

text \<open>What \<open>select!\<close> meets: a connection with the line it brings, an error of \<open>accept\<close>, a signal.\<close>

datatype main_outcome =
    IpcAccepted "string option"
  | IpcAcceptError nat
  | Sigterm
  | CtrlC

fun is_signal :: "main_outcome \<Rightarrow> bool" where
  "is_signal Sigterm = True"
| "is_signal CtrlC = True"
| "is_signal x = False"

text \<open>
  The tasks beside the main loop, in the order of their start; a start that fails at the socket has
  started the first three, one that fails at the signals all of them. The end aborts all but the
  discovery, which is not kept.
\<close>

datatype service =
    ClipboardWatch "string option \<times> string option"
  | ClipboardBridge
  | TcpServer
  | SshDiscovery
  | Reconciler

definition services :: "start_world \<Rightarrow> string option \<times> string option \<Rightarrow> service list" where
  "services sw watcher =
     [ClipboardWatch watcher, ClipboardBridge, TcpServer]
     @ (if st_bind sw then [SshDiscovery, Reconciler] else [])"

definition aborted_services :: "service list \<Rightarrow> service list" where
  "aborted_services ss = filter (\<lambda>s. s \<noteq> SshDiscovery) ss"

section \<open>The life of a daemon\<close>

text \<open>
  Where the process is: in the main loop, in the cleanup behind it, returned from \<open>run_daemon\<close>, or ended
  by the monitor's \<open>exit(1)\<close>.
\<close>

datatype phase = Serving | Ending | Returned | ProcessExited

record life =
  phase :: phase
  handled :: "string option list"
  display_tasks :: supervisor
  machine :: host

definition start_life :: "running_daemon \<Rightarrow> host \<Rightarrow> life" where
  "start_life d w = \<lparr>phase = Serving, handled = [],
     display_tasks = supervising (dm_display_str (rd_display d)), machine = w\<rparr>"

text \<open>The start, and the daemon that it leaves in its main loop.\<close>

definition run_daemon :: "start_world \<Rightarrow> host \<Rightarrow> daemon_error \<times> host + life" where
  "run_daemon sw w =
     (case start_daemon sw w of (Inl e, w') \<Rightarrow> Inl (e, w') | (Inr d, w') \<Rightarrow> Inr (start_life d w'))"

text \<open>
  One turn of the main loop: a connection is handed to a task, an error is logged, a signal leaves the
  loop for the cleanup, which calls the shutdown of the display.
\<close>

definition main_turn :: "main_outcome \<Rightarrow> life \<Rightarrow> life" where
  "main_turn x s =
     (case x of
        IpcAccepted l \<Rightarrow> s\<lparr>handled := handled s @ [l]\<rparr>
      | IpcAcceptError e \<Rightarrow> s
      | _ \<Rightarrow> s\<lparr>phase := Ending, display_tasks := (display_tasks s)\<lparr>shutdown := WantsLock\<rparr>\<rparr>)"

text \<open>
  What a step of the display's tasks does to the files, the environment and the process: a respawned
  Xvfb is exported and published, a finished shutdown removes the display file, and a monitor
  that gives up ends the process.
\<close>

definition display_effect :: "(string \<Rightarrow> bool) \<Rightarrow> sup_event \<Rightarrow> host \<Rightarrow> host" where
  "display_effect removable e w =
     (case e of
        Respawned x writable \<Rightarrow>
          (case spawn_xvfb x of
             Inl err \<Rightarrow> w
           | Inr d \<Rightarrow>
               let w1 = w\<lparr>host_env := (host_env w)(''DISPLAY'' \<mapsto> d)\<rparr> in
               (case publish_display (host_env w1) writable d (host_files w1) of
                  Inl err \<Rightarrow> w1 | Inr fs \<Rightarrow> w1\<lparr>host_files := fs\<rparr>))
      | ShutdownLocks \<Rightarrow>
          w\<lparr>host_files := remove_file removable (display_file_path (host_env w)) (host_files w)\<rparr>
      | _ \<Rightarrow> w)"

definition display_turn :: "(string \<Rightarrow> bool) \<Rightarrow> sup_event \<Rightarrow> supervisor \<Rightarrow> life \<Rightarrow> life" where
  "display_turn removable e t s =
     s\<lparr>phase := (if monitor t = Exited then ProcessExited else phase s), display_tasks := t,
       machine := display_effect removable e (machine s)\<rparr>"

datatype life_event = Main main_outcome | DisplayTask sup_event | Return

text \<open>
  The main loop and the display's tasks run side by side; \<open>run_daemon\<close> returns when the shutdown has
  finished or timed out. Nothing happens after the end of the process.
\<close>

inductive life_step :: "(string \<Rightarrow> bool) \<Rightarrow> life \<Rightarrow> life_event \<Rightarrow> life \<Rightarrow> bool" for removable where
  main: "phase s = Serving \<Longrightarrow> life_step removable s (Main x) (main_turn x s)"
| display: "phase s = Serving \<or> phase s = Ending \<Longrightarrow> sup_step (display_tasks s) e t \<Longrightarrow> e \<noteq> ShutdownCalled \<Longrightarrow>
    life_step removable s (DisplayTask e) (display_turn removable e t s)"
| return: "phase s = Ending \<Longrightarrow> shutdown (display_tasks s) = Finished \<or> shutdown (display_tasks s) = TimedOut \<Longrightarrow>
    life_step removable s Return (s\<lparr>phase := Returned, machine := remove_socket removable (machine s)\<rparr>)"

inductive life_run :: "(string \<Rightarrow> bool) \<Rightarrow> life \<Rightarrow> life_event list \<Rightarrow> life \<Rightarrow> bool" for removable where
  life_nil: "life_run removable s [] s"
| life_cons: "life_step removable s e s' \<Longrightarrow> life_run removable s' es s'' \<Longrightarrow> life_run removable s (e # es) s''"

inductive_simps life_step_simps:
  "life_step removable s (Main x) s'" "life_step removable s (DisplayTask e) s'" "life_step removable s Return s'"
inductive_simps life_run_nil [simp]: "life_run removable s [] s'"
inductive_simps life_run_cons: "life_run removable s (e # es) s'"

section \<open>The TCP server\<close>

datatype tcp_error = TailscaleFailed | TailscaleEmpty | BindFailed string | AcceptFailed nat

text \<open>\<open>tailscale\<close> is the output of \<^verbatim>\<open>tailscale ip -4\<close>, if it ran.\<close>

definition tcp_bind_address :: "string option \<Rightarrow> 16 word \<Rightarrow> tcp_error + string" where
  "tcp_bind_address tailscale port =
     (if tailscale = None then Inl TailscaleFailed
      else (case resolve_tailscale_ip tailscale of
              None \<Rightarrow> Inl TailscaleEmpty
            | Some bind_ip \<Rightarrow> Inr (bind_ip @ '':'' @ show_nat (unat port))))"

text \<open>
  The accept loop: for every connection the address of the peer and the registry at the two moments
  when its key is looked for; the result is why the server has ended, if it has, and the inbound
  connections it has opened.
\<close>

fun tcp_accept_loop ::
  "(registry \<Rightarrow> registry \<Rightarrow> IpAddr \<Rightarrow> hostname) \<Rightarrow> (nat + IpAddr \<times> registry \<times> registry) list
     \<Rightarrow> tcp_error option \<times> event list" where
  "tcp_accept_loop key [] = (None, [])"
| "tcp_accept_loop key (Inl e # as) = (Some (AcceptFailed e), [])"
| "tcp_accept_loop key (Inr (ip, r, r') # as) =
     (let (ended, es) = tcp_accept_loop key as in (ended, InboundOpened (key r r' ip) # es))"

definition run_tcp_server ::
  "(registry \<Rightarrow> registry \<Rightarrow> IpAddr \<Rightarrow> hostname) \<Rightarrow> string option \<Rightarrow> (string \<Rightarrow> bool) \<Rightarrow> 16 word
     \<Rightarrow> (nat + IpAddr \<times> registry \<times> registry) list \<Rightarrow> tcp_error option \<times> event list" where
  "run_tcp_server key tailscale can_bind port as =
     (case tcp_bind_address tailscale port of
        Inl e \<Rightarrow> (Some e, [])
      | Inr addr \<Rightarrow> if can_bind addr then tcp_accept_loop key as else (Some (BindFailed addr), []))"

section \<open>The reconciler\<close>

text \<open>
  An interval of two seconds whose first tick is immediate and which catches up on ticks missed:
  when each refresh starts, in milliseconds, given how long the refreshes take. \<open>tick\<close> is the next
  scheduled tick and \<open>now\<close> the time.
\<close>

fun reconcile_starts :: "nat \<Rightarrow> nat \<Rightarrow> nat list \<Rightarrow> nat list" where
  "reconcile_starts tick now [] = []"
| "reconcile_starts tick now (d # ds) =
     max tick now # reconcile_starts (tick + 2000) (max tick now + d) ds"

section \<open>Properties\<close>

text \<open>The end aborts every service but the discovery.\<close>

lemma only_discovery_not_aborted:
  "st_bind sw \<Longrightarrow> set (services sw w) - set (aborted_services (services sw w)) = {SshDiscovery}"
  by (auto simp: services_def aborted_services_def)

text \<open>The steps of the display's tasks in a life; the display that was published last and not removed.\<close>

fun display_events :: "life_event list \<Rightarrow> sup_event list" where
  "display_events [] = []"
| "display_events (Main x # es) = (if is_signal x then ShutdownCalled # display_events es else display_events es)"
| "display_events (DisplayTask e # es) = e # display_events es"
| "display_events (Return # es) = display_events es"

fun publishes :: "life_event \<Rightarrow> string option \<Rightarrow> string option" where
  "publishes (DisplayTask (Respawned (Started (Some buf)) True)) p =
     (case parse_u32 (trim buf) of Some n \<Rightarrow> Some (CHR '':'' # show_nat (unat n)) | None \<Rightarrow> p)"
| "publishes (DisplayTask ShutdownLocks) p = None"
| "publishes e p = p"

fun signals :: "life_event \<Rightarrow> bool" where
  "signals (Main x) = is_signal x"
| "signals e = False"

text \<open>
  The invariant of a life from the display \<open>p\<close> on: the files, the tasks and the phase agree with the
  events so far.
\<close>

definition life_ok :: "string \<Rightarrow> life_event list \<Rightarrow> life \<Rightarrow> bool" where
  "life_ok p es s \<longleftrightarrow>
     sup_run (supervising p) (display_events es) (display_tasks s)
     \<and> handled s = [l. Main (IpcAccepted l) \<leftarrow> es]
     \<and> host_files (machine s) (display_file_path (host_env (machine s)))
         = map_option display_script (fold publishes es (Some p))
     \<and> (host_files (machine s) (socket_path (host_env (machine s))) = None \<longleftrightarrow> phase s = Returned)
     \<and> (monitor (display_tasks s) = Exited \<longleftrightarrow> phase s = ProcessExited)
     \<and> (shutdown (display_tasks s) = NotCalled \<longleftrightarrow> \<not> list_ex signals es)
     \<and> (phase s = Serving \<longrightarrow> \<not> list_ex signals es)
     \<and> (phase s = Ending \<longrightarrow> list_ex signals es)
     \<and> (phase s = Returned \<longrightarrow> list_ex signals es \<and> shutdown (display_tasks s) \<in> {Finished, TimedOut})"

lemma display_events_append: "display_events (es @ fs) = display_events es @ display_events fs"
  by (induction es rule: display_events.induct) auto

lemma sup_run_snoc: "sup_run s es t \<Longrightarrow> sup_step t e t' \<Longrightarrow> sup_run s (es @ [e]) t'"
  by (rule sup_run_append) (auto intro: sup_run.intros)

lemma shutdown_call_kept:
  "sup_step s e t \<Longrightarrow> e \<noteq> ShutdownCalled \<Longrightarrow> shutdown t = NotCalled \<longleftrightarrow> shutdown s = NotCalled"
  by (cases rule: sup_step.cases)
    (auto simp: monitor_locked_def monitor_reaped_def monitor_respawned_def monitor_stored_def
      shutdown_locked_def Let_def split: option.splits sum.splits if_splits)

lemma publishes_respawned:
  "publishes (DisplayTask (Respawned x writable)) p =
     (case spawn_xvfb x of Inr d \<Rightarrow> if writable then Some d else p | Inl e \<Rightarrow> p)"
  by (cases x; cases writable)
    (auto simp: spawn_xvfb_def read_displayfd_def split: option.splits)

lemma display_effect_env:
  "socket_path (host_env (display_effect removable e w)) = socket_path (host_env w)"
  "display_file_path (host_env (display_effect removable e w)) = display_file_path (host_env w)"
  by (auto simp: display_effect_def publish_display_def Let_def split: sup_event.splits sum.splits)

lemma display_effect_files:
  fixes w :: host and e :: sup_event
  defines "w' \<equiv> display_effect (\<lambda>p. True) e w"
  assumes "host_files w (display_file_path (host_env w)) = map_option display_script p"
  shows "host_files w' (display_file_path (host_env w')) = map_option display_script (publishes (DisplayTask e) p)"
    and "host_files w' (socket_path (host_env w')) = None \<longleftrightarrow> host_files w (socket_path (host_env w)) = None"
proof -
  note paths = display_effect_env [of "\<lambda>p. True" e w, folded w'_def]
  show "host_files w' (display_file_path (host_env w')) = map_option display_script (publishes (DisplayTask e) p)"
    unfolding paths using assms(2)
    by (cases e) (auto simp: w'_def display_effect_def publishes_respawned publish_display_def remove_file_def
        Let_def split: sum.splits)
  show "host_files w' (socket_path (host_env w')) = None \<longleftrightarrow> host_files w (socket_path (host_env w)) = None"
    unfolding paths using daemon_paths_differ(1) [of "host_env w"]
    by (cases e) (auto simp: w'_def display_effect_def publish_display_def remove_file_def
        Let_def split: sum.splits)
qed

lemma life_ok_main:
  assumes "life_ok p es s" and "phase s = Serving"
  shows "life_ok p (es @ [Main x]) (main_turn x s)"
proof (cases "is_signal x")
  case True
  have "monitor (display_tasks s) \<noteq> Exited" "shutdown (display_tasks s) = NotCalled"
    using assms by (simp_all add: life_ok_def)
  then have "sup_step (display_tasks s) ShutdownCalled ((display_tasks s)\<lparr>shutdown := WantsLock\<rparr>)"
    by (simp add: sup_step_simps)
  with assms sup_run_snoc [OF _ this] True show ?thesis
    by (cases x) (auto simp: life_ok_def main_turn_def display_events_append)
next
  case False
  with assms show ?thesis by (cases x) (auto simp: life_ok_def main_turn_def display_events_append)
qed

lemma life_ok_display:
  assumes ok: "life_ok p es s" and ph: "phase s = Serving \<or> phase s = Ending"
    and step: "sup_step (display_tasks s) e t" and e: "e \<noteq> ShutdownCalled"
  shows "life_ok p (es @ [DisplayTask e]) (display_turn (\<lambda>p. True) e t s)"
proof -
  have "host_files (machine s) (display_file_path (host_env (machine s)))
      = map_option display_script (fold publishes es (Some p))"
    using ok by (simp add: life_ok_def)
  note files = display_effect_files [OF this, of e]
  have run: "sup_run (supervising p) (display_events (es @ [DisplayTask e])) t"
    using ok sup_run_snoc [OF _ step] by (simp add: life_ok_def display_events_append)
  show ?thesis
    using ok ph files run shutdown_call_kept [OF step e]
    by (auto simp: life_ok_def display_turn_def)
qed

lemma life_ok_return:
  assumes "life_ok p es s" and "phase s = Ending"
    and "shutdown (display_tasks s) = Finished \<or> shutdown (display_tasks s) = TimedOut"
  shows "life_ok p (es @ [Return]) (s\<lparr>phase := Returned, machine := remove_socket (\<lambda>p. True) (machine s)\<rparr>)"
  using assms daemon_paths_differ(1) [of "host_env (machine s)"]
  by (auto simp: life_ok_def display_events_append remove_socket_def remove_file_def)

lemma life_ok_step:
  assumes "life_step (\<lambda>p. True) s e s'" and "life_ok p es s"
  shows "life_ok p (es @ [e]) s'"
  using assms(1)
proof (cases rule: life_step.cases)
  case (main x)
  with life_ok_main [OF assms(2)] show ?thesis by simp
next
  case (display e t)
  with life_ok_display [OF assms(2)] show ?thesis by simp
next
  case return
  with life_ok_return [OF assms(2)] show ?thesis by simp
qed

lemma life_ok_run:
  "life_run (\<lambda>p. True) s fs s' \<Longrightarrow> life_ok p es s \<Longrightarrow> life_ok p (es @ fs) s'"
proof (induction arbitrary: es rule: life_run.induct)
  case (life_cons s e s' fs s'')
  from life_cons.IH [OF life_ok_step [OF life_cons.hyps(1) life_cons.prems]] show ?case by simp
qed simp

lemma life_ok_start:
  assumes "start_daemon sw w = (Inr d, w')"
  shows "life_ok (dm_display_str (rd_display d)) [] (start_life d w')"
  using files_of_start [OF assms] by (auto simp: life_ok_def start_life_def supervising_def)

text \<open>In the cleanup the daemon can always return, in two steps at most.\<close>

lemma can_return:
  assumes "life_ok p es s" and "phase s = Ending"
  shows "\<exists>fs s'. life_run (\<lambda>p. True) s fs s' \<and> length fs \<le> 2 \<and> phase s' = Returned"
proof -
  have return: "\<exists>s'. life_step (\<lambda>p. True) u Return s' \<and> phase s' = Returned"
    if "phase u = Ending" "shutdown (display_tasks u) \<in> {Finished, TimedOut}" for u
    using that by (simp add: life_step_simps)
  show ?thesis
  proof (cases "shutdown (display_tasks s) \<in> {Finished, TimedOut}")
    case True
    with return [OF assms(2)] obtain s' where "life_step (\<lambda>p. True) s Return s'" "phase s' = Returned" by blast
    then show ?thesis by (intro exI [of _ "[Return]"] exI [of _ s']) (simp add: life_run_cons)
  next
    case False
    with assms have wants: "shutdown (display_tasks s) = WantsLock" "monitor (display_tasks s) \<noteq> Exited"
      by (cases "shutdown (display_tasks s)"; simp add: life_ok_def)+
    let ?t = "(display_tasks s)\<lparr>shutdown := TimedOut\<rparr>"
    let ?u = "display_turn (\<lambda>p. True) ShutdownTimesOut ?t s"
    have step: "life_step (\<lambda>p. True) s (DisplayTask ShutdownTimesOut) ?u"
      using assms(2) wants by (simp add: life_step_simps sup_step_simps)
    have "phase ?u = Ending" "shutdown (display_tasks ?u) \<in> {Finished, TimedOut}"
      using assms(2) wants by (simp_all add: display_turn_def)
    from return [OF this] obtain s' where "life_step (\<lambda>p. True) ?u Return s'" "phase s' = Returned" by blast
    with step show ?thesis
      by (intro exI [of _ "[DisplayTask ShutdownTimesOut, Return]"] exI [of _ s']) (auto simp: life_run_cons)
  qed
qed

text \<open>
  C31. The life of a daemon that has started, over every interleaving of its main loop with the monitor
  of its display. It hands every connection that it accepts to a task. Its socket exists until it
  returns, and is gone then. It serves as long as there is no signal, and then any connection, error
  and signal can happen; after a signal it can always return, within two steps, and when it has
  returned the shutdown of the display has finished or timed out. The one other end is that of the
  whole process when four respawns of Xvfb in a row have failed, which leaves the socket behind.
  At all times the display file exports the display that was published last, by the start or by a
  respawn, unless a shutdown has removed it since.
\<close>
theorem daemon_runs_until_signal:
  assumes "run_daemon sw w = Inr s0" and "life_run (\<lambda>p. True) s0 es s"
  shows "handled s = [l. Main (IpcAccepted l) \<leftarrow> es]
    \<and> host_files (machine s) (display_file_path (host_env (machine s)))
        = map_option display_script (fold publishes es (published (display_tasks s0)))
    \<and> (host_files (machine s) (socket_path (host_env (machine s))) = None \<longleftrightarrow> phase s = Returned)
    \<and> (case phase s of
         Serving \<Rightarrow> \<not> list_ex signals es \<and> (\<forall>x. life_step (\<lambda>p. True) s (Main x) (main_turn x s))
       | Ending \<Rightarrow> list_ex signals es
           \<and> (\<exists>fs s'. life_run (\<lambda>p. True) s fs s' \<and> length fs \<le> 2 \<and> phase s' = Returned)
       | Returned \<Rightarrow> list_ex signals es \<and> shutdown (display_tasks s) \<in> {Finished, TimedOut}
       | ProcessExited \<Rightarrow> failures 0 (display_events es) = 4)"
proof -
  obtain d w' where start: "start_daemon sw w = (Inr d, w')" "s0 = start_life d w'"
    using assms(1) by (auto simp: run_daemon_def split: sum.splits prod.splits)
  let ?p = "dm_display_str (rd_display d)"
  have "life_ok ?p es s"
    using life_ok_run [OF assms(2)] life_ok_start [OF start(1)] start(2) by fastforce
  moreover have "published (display_tasks s0) = Some ?p"
    by (simp add: start(2) start_life_def supervising_def)
  moreover have "failures 0 (display_events es) = 4" if "monitor (display_tasks s) = Exited"
    and "sup_run (supervising ?p) (display_events es) (display_tasks s)"
    using monitor_ok_run [OF that(2) supervising_ok] that(1) by (simp add: monitor_ok_def MAX_ATTEMPTS_def)
  ultimately show ?thesis
    using can_return [of ?p es s] by (cases "phase s") (auto simp: life_ok_def life_step_simps)
qed

text \<open>
  A daemon that serves a connection; its Xvfb crashes and comes back on display 8, which is published;
  a signal ends it.
\<close>
theorem daemon_runs_until_signal_witness:
  "\<exists>s0 s s'. run_daemon headless_start \<lparr>host_files = Map.empty, host_env = [''HOME'' \<mapsto> ''/u'']\<rparr> = Inr s0
    \<and> life_run (\<lambda>p. True) s0 [Main (IpcAcceptError 24), Main (IpcAccepted (Some ''x'')), DisplayTask ChildExits,
        DisplayTask MonitorLocks, DisplayTask MonitorReaps,
        DisplayTask (Respawned (Started (Some (show_nat 8 @ [CHR 0x0A]))) True)] s
    \<and> phase s = Serving \<and> handled s = [Some ''x'']
    \<and> host_files (machine s) (display_file_path (host_env (machine s))) = Some (display_script (CHR '':'' # show_nat 8))
    \<and> life_run (\<lambda>p. True) s [Main Sigterm, DisplayTask ShutdownLocks, Return] s' \<and> phase s' = Returned"
proof -
  let ?w = "\<lparr>host_files = Map.empty, host_env = [''HOME'' \<mapsto> ''/u'']\<rparr>"
  let ?x = "Started (Some (show_nat 8 @ [CHR 0x0A]))"
  let ?es = "[Main (IpcAcceptError 24), Main (IpcAccepted (Some ''x'')), DisplayTask ChildExits,
        DisplayTask MonitorLocks, DisplayTask MonitorReaps, DisplayTask (Respawned ?x True)]"
  have parse: "parse_u32 (trim (show_nat 8 @ [CHR 0x0A])) = Some 8"
    by (simp add: trim_line show_nat_printable parse_show_nat)
  then have spawn: "spawn_xvfb ?x = Inr (CHR '':'' # show_nat 8)"
    by (simp add: spawn_xvfb_def read_displayfd_def)
  obtain d w' where "start_daemon headless_start ?w = (Inr d, w')"
    using headless_starts by blast
  then obtain s0 where s0: "run_daemon headless_start ?w = Inr s0" "s0 = start_life d w'"
    by (simp add: run_daemon_def)
  note eval = life_run_cons life_step_simps main_turn_def display_turn_def sup_step_simps monitor_locked_def
    monitor_reaped_def monitor_respawned_def shutdown_locked_def MAX_ATTEMPTS_def Let_def
  obtain s where s: "life_run (\<lambda>p. True) s0 ?es s" "phase s = Serving"
    "shutdown (display_tasks s) = NotCalled" "\<not> locked (display_tasks s)" "monitor (display_tasks s) = Storing (CHR '':'' # show_nat 8)"
    by (simp add: s0(2) start_life_def supervising_def eval spawn)
  have "handled s = [Some ''x''] \<and> host_files (machine s) (display_file_path (host_env (machine s)))
      = Some (display_script (CHR '':'' # show_nat 8))"
    using daemon_runs_until_signal [OF s0(1) s(1)] by (simp add: parse)
  moreover obtain s' where "life_run (\<lambda>p. True) s [Main Sigterm, DisplayTask ShutdownLocks, Return] s'" "phase s' = Returned"
    using s(2-5) by (simp add: eval)
  ultimately show ?thesis using s0(1) s(1,2) by blast
qed

lemma tcp_accept_loop_append:
  "tcp_accept_loop key (as @ bs) =
     (case tcp_accept_loop key as of
        (None, es) \<Rightarrow> (case tcp_accept_loop key bs of (ended, fs) \<Rightarrow> (ended, es @ fs))
      | (Some e, es) \<Rightarrow> (Some e, es))"
  by (induction key as rule: tcp_accept_loop.induct) (auto split: prod.splits option.splits)

lemma tcp_accept_loop_all:
  "tcp_accept_loop key (map Inr cs) = (None, map (\<lambda>(ip, r, r'). InboundOpened (key r r' ip)) cs)"
  by (induction cs) auto

text \<open>
  A failed \<open>accept\<close> is survived on one socket and not on the other: on the TCP socket it ends
  the server for good, so that of all later connections none is served, while the daemon goes on; on the
  Unix socket it changes nothing.
\<close>
theorem failed_accept_ends_tcp_only:
  assumes "tcp_bind_address tailscale port = Inr addr" and "can_bind addr"
  shows "run_tcp_server key tailscale can_bind port (map Inr cs @ Inl e # later)
      = (Some (AcceptFailed e), map (\<lambda>(ip, r, r'). InboundOpened (key r r' ip)) cs)
    \<and> (phase s = Serving \<longrightarrow> life_step removable s (Main (IpcAcceptError e)) s)"
proof
  show "run_tcp_server key tailscale can_bind port (map Inr cs @ Inl e # later)
      = (Some (AcceptFailed e), map (\<lambda>(ip, r, r'). InboundOpened (key r r' ip)) cs)"
    using assms by (simp add: run_tcp_server_def tcp_accept_loop_append tcp_accept_loop_all)
  show "phase s = Serving \<longrightarrow> life_step removable s (Main (IpcAcceptError e)) s"
    by (simp add: life_step_simps main_turn_def)
qed

lemma reconcile_starts_length [simp]: "length (reconcile_starts tick now ds) = length ds"
  by (induction ds arbitrary: tick now) auto

text \<open>
  The reconciler's refreshes never overlap and are never far apart: each starts after the one
  before it has ended, and at most two seconds after its start, or the time that one took if
  that is longer.
\<close>
theorem reconcile_period:
  assumes "Suc i < length ds" and "ds ! i \<le> D" and "2000 \<le> D"
  shows "reconcile_starts 0 0 ds ! i + ds ! i \<le> reconcile_starts 0 0 ds ! Suc i
    \<and> reconcile_starts 0 0 ds ! Suc i \<le> reconcile_starts 0 0 ds ! i + D"
proof -
  have "reconcile_starts tick now ds ! i + ds ! i \<le> reconcile_starts tick now ds ! Suc i
      \<and> reconcile_starts tick now ds ! Suc i \<le> reconcile_starts tick now ds ! i + D"
    if "Suc i < length ds" "ds ! i \<le> D" for tick now
    using that
  proof (induction i arbitrary: ds tick now)
    case 0
    then obtain d d' ds' where "ds = d # d' # ds'" by (cases ds; cases "tl ds") auto
    with 0 assms(3) show ?case by simp
  next
    case (Suc i)
    then obtain d ds' where "ds = d # ds'" by (cases ds) auto
    with Suc show ?case by simp
  qed
  with assms show ?thesis by blast
qed

end
