(* ===== verification/Process_List.thy ===== *)
theory Process_List
  imports Ssh_Properties
begin

text \<open>
  The command lines of the OpenSSH client, and the process list that the daemon scans when it starts.
  The options are those of the manual page \<^verbatim>\<open>ssh(1)\<close>, written down independently of the code; a
  process list is the text of a list of processes, one line each, as \<^verbatim>\<open>pgrep -a\<close> prints them. What
  the scan finds is compared with the processes.
\<close>

section \<open>Command lines\<close>











section \<open>The destination behind options\<close>














text \<open>A destination in the form of a URL is not understood: its host is read as \<^verbatim>\<open>ssh\<close>.\<close>

theorem ssh_url_read_as_host:
  "extract_ssh_destination_host (''ssh://db'' # args) = Inr (Some ''ssh'')"
proof -
  have "normalize_ssh_host ''ssh://db'' = Some ''ssh''" by code_simp
  then show ?thesis by (simp add: extract_destination starts_with_def)
qed

section \<open>Process lists\<close>











section \<open>Reading a process list\<close>

lemma ws_len_space [simp]: "ws_len (CHR '' '' # s) = 1"
  by (simp add: ws_len_def ws_chars_def starts_with_def)























end
