(* ===== verification/Discovery.thy ===== *)
theory Discovery
  imports Process_List Daemon_Properties
begin

text \<open>
  The discovery of SSH sessions at the start of the daemon
  (\<open>discover_existing_ssh_sessions\<close>), from the output of \<^verbatim>\<open>pgrep\<close> to the registry: the scan of
  \<open>Ssh_Hosts\<close> yields the tasks that the core of \<open>Daemon\<close> runs. What the registry holds in the end is
  compared with the processes that the list was printed from (\<open>Process_List\<close>).
\<close>

section \<open>The scan and its tasks\<close>



section \<open>The discovery of one host\<close>


text \<open>The announcements of sessions of a host among some events.\<close>

fun announced :: "hostname \<Rightarrow> event list \<Rightarrow> pid list list" where
  "announced h [] = []"
| "announced h (Discovered k is # es) = (if k = h then is # announced h es else announced h es)"
| "announced h (e # es) = announced h es"



text \<open>The discovery tasks of a host that have still to enter their section.\<close>

fun discovering :: "hostname \<Rightarrow> task \<Rightarrow> bool" where
  "discovering h (Discovering k is) = (k = h)"
| "discovering h t = False"


lemma not_discovering [simp]:
  "\<not> discovering h t \<Longrightarrow> filter_mset (discovering h) (T - {#t#}) = filter_mset (discovering h) T"
  by (auto simp: multiset_eq_iff)





lemma announced_single [simp]:
  "announced h [e] = (case e of Discovered k is \<Rightarrow> if k = h then [is] else [] | _ \<Rightarrow> [])"
  by (cases e) auto






section \<open>The sessions after startup\<close>







end
