(* ===== verification/Transport.thy ===== *)
theory Transport
  imports Protocol
begin

text \<open>
  The TCP framing of \<^verbatim>\<open>src/src/transport.rs\<close> (\<open>send_frame\<close>, \<open>recv_frame\<close>) and
  the receive loop that \<open>server\<close> there and the inbound task of
  \<^verbatim>\<open>src/src/daemon.rs\<close> share. The socket is tokio's: reading exactly \<open>n\<close> bytes and
  writing a buffer under a deadline are parameters of the definitions. What tokio documents of
  \<open>read_exact\<close> is the locale \<open>exact_reader\<close>; it is interpreted on a reader that gathers
  the chunks in which a stream arrives.
\<close>

section \<open>Errors\<close>

text \<open>
  \<open>io::ErrorKind\<close>: only \<open>UnexpectedEof\<close> is told apart by the code, any other kind is
  \<open>OtherIo\<close> with its operating system code.
\<close>

datatype io_error = UnexpectedEof | OtherIo nat

datatype TransportError =
    Io io_error
  | WriteTimeout
  | ConnectionClosed
  | FrameErr FrameError

section \<open>Sending and receiving one frame\<close>

text \<open>The outcome of \<open>timeout(10 s, writer.write_all(..))\<close>.\<close>

datatype write_outcome = Written | Elapsed | WriteFailed io_error

definition send_frame ::
  "(bytes \<Rightarrow> 'w \<Rightarrow> write_outcome \<times> 'w) \<Rightarrow> 'w \<Rightarrow> Frame \<Rightarrow> (TransportError + unit) \<times> 'w" where
  "send_frame write_all w f =
     (case map_err FrameErr (to_bytes f) of
        Inl e \<Rightarrow> (Inl e, w)
      | Inr bs \<Rightarrow>
          (case write_all bs w of
             (Written, w') \<Rightarrow> (Inr (), w')
           | (Elapsed, w') \<Rightarrow> (Inl WriteTimeout, w')
           | (WriteFailed e, w') \<Rightarrow> (Inl (Io e), w')))"

text \<open>End of file, in the header or in the payload, is reported as a closed connection.\<close>

definition read_error :: "io_error \<Rightarrow> TransportError" where
  "read_error e = (if e = UnexpectedEof then ConnectionClosed else Io e)"

definition recv_frame ::
  "(nat \<Rightarrow> 'r \<Rightarrow> (io_error + bytes) \<times> 'r) \<Rightarrow> 'r \<Rightarrow> (TransportError + Frame) \<times> 'r" where
  "recv_frame read_exact r =
     (case read_exact HEADER_LEN r of
        (Inl e, r1) \<Rightarrow> (Inl (read_error e), r1)
      | (Inr header, r1) \<Rightarrow>
          let payload_len = header_payload_len header in
          (case read_exact payload_len r1 of
             (Inl e, r2) \<Rightarrow> (Inl (read_error e), r2)
           | (Inr body, r2) \<Rightarrow> (map_err FrameErr (from_bytes (header @ body)), r2)))"

section \<open>The receive loop of a connection\<close>

text \<open>
  Every received payload is handed to the clipboard writer, whose errors are logged and
  otherwise ignored; the first error of \<open>recv_frame\<close> ends the loop. The loop is a partial
  function: a stream that never ends would never leave it.
\<close>

partial_function (option) conn_loop ::
  "(nat \<Rightarrow> 'r \<Rightarrow> (io_error + bytes) \<times> 'r) \<Rightarrow> (bytes \<Rightarrow> 'w \<Rightarrow> 'w) \<Rightarrow> 'r \<Rightarrow> 'w
     \<Rightarrow> (TransportError \<times> 'w) option" where
  "conn_loop read_exact put r w =
     (case recv_frame read_exact r of
        (Inr f, r') \<Rightarrow> conn_loop read_exact put r' (put (payload f) w)
      | (Inl e, r') \<Rightarrow> Some (e, w))"

text \<open>Sending a list of frames back to back puts the concatenation of their encodings on the wire.\<close>

fun encode_stream :: "Frame list \<Rightarrow> FrameError + bytes" where
  "encode_stream [] = Inr []"
| "encode_stream (f # fs) =
     bind_result (to_bytes f) (\<lambda>bs. bind_result (encode_stream fs) (\<lambda>rest. Inr (bs @ rest)))"

section \<open>What the stream of bytes means\<close>

text \<open>
  The reference reading of a finite byte stream: the frames it holds, and why reading stops, which
  is either a frame that does not parse or fewer bytes than the next frame needs.
\<close>

datatype stop = Short | Bad FrameError

function decode_stream :: "bytes \<Rightarrow> Frame list \<times> stop" where
  "decode_stream bs =
     (if length bs < 8 \<or> length bs < 8 + header_payload_len bs then ([], Short)
      else case from_bytes (take (8 + header_payload_len bs) bs) of
             Inl e \<Rightarrow> ([], Bad e)
           | Inr f \<Rightarrow>
               (let (fs, s) = decode_stream (drop (8 + header_payload_len bs) bs) in (f # fs, s)))"
  by pat_completeness auto
termination
  by (relation "measure length") auto

declare decode_stream.simps [simp del]

definition stop_error :: "io_error \<Rightarrow> stop \<Rightarrow> TransportError" where
  "stop_error e s = (case s of Short \<Rightarrow> read_error e | Bad x \<Rightarrow> FrameErr x)"

section \<open>The interface of the socket\<close>

text \<open>
  Documented behaviour of \<open>AsyncReadExt::read_exact\<close> on a stream with bytes \<open>rest r\<close> still
  to come before it ends with \<open>ending r\<close>: it yields the next \<open>n\<close> bytes if there are that
  many, and the stream's ending as an error otherwise.
\<close>

locale exact_reader =
  fixes read_exact :: "nat \<Rightarrow> 'r \<Rightarrow> (io_error + bytes) \<times> 'r"
    and rest :: "'r \<Rightarrow> bytes"
    and ending :: "'r \<Rightarrow> io_error"
  assumes enough: "n \<le> length (rest r) \<Longrightarrow>
      \<exists>r'. read_exact n r = (Inr (take n (rest r)), r') \<and> rest r' = drop n (rest r)
        \<and> ending r' = ending r"
    and too_few: "length (rest r) < n \<Longrightarrow> \<exists>r'. read_exact n r = (Inl (ending r), r')"
begin

lemma recv_frame_short:
  assumes "length (rest r) < 8 \<or> length (rest r) < 8 + header_payload_len (rest r)"
  shows "\<exists>r'. recv_frame read_exact r = (Inl (read_error (ending r)), r')"
proof (cases "length (rest r) < 8")
  case True
  then show ?thesis using too_few [of r 8] by (auto simp: recv_frame_def HEADER_LEN_def)
next
  case False
  then obtain r1 where r1: "read_exact 8 r = (Inr (take 8 (rest r)), r1)"
    "rest r1 = drop 8 (rest r)" "ending r1 = ending r"
    using enough [of 8 r] by auto
  have n: "header_payload_len (take 8 (rest r)) = header_payload_len (rest r)"
    by (simp add: header_payload_len_def)
  have "length (rest r1) < header_payload_len (rest r)"
    using False assms r1(2) by auto
  then show ?thesis
    using too_few [of r1] r1 n by (fastforce simp: recv_frame_def HEADER_LEN_def)
qed

lemma recv_frame_full:
  assumes "8 \<le> length (rest r)" and "8 + header_payload_len (rest r) \<le> length (rest r)"
  shows "\<exists>r'. recv_frame read_exact r =
      (map_err FrameErr (from_bytes (take (8 + header_payload_len (rest r)) (rest r))), r')
    \<and> rest r' = drop (8 + header_payload_len (rest r)) (rest r) \<and> ending r' = ending r"
proof -
  let ?n = "header_payload_len (rest r)"
  obtain r1 where r1: "read_exact 8 r = (Inr (take 8 (rest r)), r1)"
    "rest r1 = drop 8 (rest r)" "ending r1 = ending r"
    using assms(1) enough [of 8 r] by auto
  have n: "header_payload_len (take 8 (rest r)) = ?n"
    by (simp add: header_payload_len_def)
  have "?n \<le> length (rest r1)"
    using assms r1(2) by simp
  from enough [OF this] obtain r2 where
    r2: "read_exact ?n r1 = (Inr (take ?n (drop 8 (rest r))), r2)"
    "rest r2 = drop ?n (drop 8 (rest r))" "ending r2 = ending r"
    using r1 by auto
  have "take 8 (rest r) @ take ?n (drop 8 (rest r)) = take (8 + ?n) (rest r)"
    by (simp add: take_add)
  with r1 r2 n show ?thesis
    by (simp add: recv_frame_def HEADER_LEN_def add.commute)
qed

lemma conn_loop_decodes:
  "conn_loop read_exact put r w =
     Some (stop_error (ending r) (snd (decode_stream (rest r))),
       fold put (map payload (fst (decode_stream (rest r)))) w)"
proof (induction "rest r" arbitrary: r w rule: decode_stream.induct)
  case (1 r w)
  let ?n = "8 + header_payload_len (rest r)"
  show ?case
  proof (cases "length (rest r) < 8 \<or> length (rest r) < ?n")
    case True
    with recv_frame_short [of r] show ?thesis
      by (auto simp: conn_loop.simps [of _ _ r] decode_stream.simps [of "rest r"] stop_error_def)
  next
    case False
    then obtain r' where r': "recv_frame read_exact r =
        (map_err FrameErr (from_bytes (take ?n (rest r))), r')"
      "rest r' = drop ?n (rest r)" "ending r' = ending r"
      using recv_frame_full [of r] by auto
    show ?thesis
    proof (cases "from_bytes (take ?n (rest r))")
      case (Inl e)
      with False r' show ?thesis
        by (simp add: conn_loop.simps [of _ _ r] decode_stream.simps [of "rest r"] stop_error_def)
    next
      case (Inr f)
      have "conn_loop read_exact put r' (put (payload f) w) =
          Some (stop_error (ending r') (snd (decode_stream (rest r'))),
            fold put (map payload (fst (decode_stream (rest r')))) (put (payload f) w))"
        using "1.hyps" [OF False Inr r'(2) [symmetric]] r'(2) by simp
      with False Inr r' show ?thesis
        by (simp add: conn_loop.simps [of _ _ r] decode_stream.simps [of "rest r"]
            split: prod.splits)
    qed
  qed
qed

end

text \<open>A reader that gathers chunks, as they arrive from the network, until it has enough.\<close>

fun gather :: "nat \<Rightarrow> bytes list \<Rightarrow> (bytes \<times> bytes list) option" where
  "gather n [] = (if n = 0 then Some ([], []) else None)"
| "gather n (c # cs) =
     (if n \<le> length c then Some (take n c, drop n c # cs)
      else map_option (\<lambda>(b, cs'). (c @ b, cs')) (gather (n - length c) cs))"

definition chunk_read_exact ::
  "nat \<Rightarrow> bytes list \<times> io_error \<Rightarrow> (io_error + bytes) \<times> (bytes list \<times> io_error)" where
  "chunk_read_exact n r =
     (case gather n (fst r) of
        Some (b, cs') \<Rightarrow> (Inr b, (cs', snd r))
      | None \<Rightarrow> (Inl (snd r), ([], snd r)))"

definition chunk_rest :: "bytes list \<times> io_error \<Rightarrow> bytes" where
  "chunk_rest r = concat (fst r)"

lemma gather_enough:
  "n \<le> length (concat cs) \<Longrightarrow>
     \<exists>cs'. gather n cs = Some (take n (concat cs), cs') \<and> concat cs' = drop n (concat cs)"
proof (induction n cs rule: gather.induct)
  case (2 n c cs)
  show ?case
  proof (cases "n \<le> length c")
    case False
    with 2 show ?thesis by fastforce
  qed simp
qed simp

lemma gather_too_few: "length (concat cs) < n \<Longrightarrow> gather n cs = None"
  by (induction n cs rule: gather.induct) auto

interpretation chunked: exact_reader chunk_read_exact chunk_rest snd
proof
  fix n :: nat and r :: "bytes list \<times> io_error"
  assume "n \<le> length (chunk_rest r)"
  then show "\<exists>r'. chunk_read_exact n r = (Inr (take n (chunk_rest r)), r')
      \<and> chunk_rest r' = drop n (chunk_rest r) \<and> snd r' = snd r"
    using gather_enough [of n "fst r"] by (auto simp: chunk_read_exact_def chunk_rest_def)
next
  fix n :: nat and r :: "bytes list \<times> io_error"
  assume "length (chunk_rest r) < n"
  then show "\<exists>r'. chunk_read_exact n r = (Inl (snd r), r')"
    using gather_too_few [of "fst r" n] by (simp add: chunk_read_exact_def chunk_rest_def)
qed

section \<open>Streams of frames\<close>

lemma decode_stream_frame:
  assumes "to_bytes f = Inr bs"
  shows "decode_stream (bs @ tl_bs) = (let (fs, s) = decode_stream tl_bs in (f # fs, s))"
proof -
  have len: "8 \<le> length bs" and n: "header_payload_len (bs @ tl_bs) = length bs - 8"
    using wire.enc_header [OF assms] wire.enc_body [OF assms]
    by (auto simp: HEADER_LEN_def header_payload_len_def nth_append)
  then have "take (8 + header_payload_len (bs @ tl_bs)) (bs @ tl_bs) = bs"
    and "drop (8 + header_payload_len (bs @ tl_bs)) (bs @ tl_bs) = tl_bs"
    by simp_all
  with len n wire.dec_enc [OF assms] show ?thesis
    by (simp add: decode_stream.simps [of "bs @ tl_bs"])
qed

lemma decode_stream_encoded:
  "encode_stream fs = Inr bs \<Longrightarrow>
     decode_stream (bs @ tl_bs) = (let (gs, s) = decode_stream tl_bs in (fs @ gs, s))"
proof (induction fs arbitrary: bs)
  case Nil
  then show ?case by (simp split: prod.splits)
next
  case (Cons f fs)
  then obtain b c where "to_bytes f = Inr b" "encode_stream fs = Inr c" "bs = b @ c"
    by (auto simp: bind_result_Inr)
  with Cons.IH show ?case
    by (simp add: decode_stream_frame split: prod.splits)
qed

lemma decode_stream_partial:
  "length part < 8 \<or> length part < 8 + header_payload_len part \<Longrightarrow> decode_stream part = ([], Short)"
  by (simp add: decode_stream.simps)

text \<open>A buffer cut at the length its header announces has no length left to complain about.\<close>

lemma from_bytes_exact_error:
  assumes "8 + header_payload_len bs \<le> length bs"
    and "from_bytes (take (8 + header_payload_len bs) bs) = Inl e"
  shows "e = InvalidMagic \<or> (\<exists>v. e = UnsupportedVersion v)"
proof -
  have "header_payload_len (take (8 + header_payload_len bs) bs) = header_payload_len bs"
    by (simp add: header_payload_len_def)
  with assms show ?thesis
    by (cases e) (auto simp: from_bytes_Inl_iff)
qed

lemma conn_loop_delivers:
  assumes "exact_reader read_exact rest ending" and "encode_stream fs = Inr bs"
    and "rest r = bs @ part" "ending r = UnexpectedEof"
    and "length part < 8 \<or> length part < 8 + header_payload_len part"
  shows "conn_loop read_exact put r w = Some (ConnectionClosed, fold put (map payload fs) w)"
  by (simp add: exact_reader.conn_loop_decodes [OF assms(1)] assms(3,4) decode_stream_encoded [OF assms(2)]
      decode_stream_partial [OF assms(5)] stop_error_def read_error_def)

section \<open>Properties\<close>

text \<open>
  C9. Frames sent back to back over a stream that reads exactly what was asked for arrive complete,
  unchanged and in order at the clipboard writer, however the stream was cut into chunks; when the
  sender goes away, even in the middle of a further frame, the loop ends with a closed connection
  and the incomplete frame never reaches the writer.
\<close>

theorem receiver_gets_sent_frames:
  assumes reader: "exact_reader read_exact rest ending"
    and sent: "encode_stream fs = Inr bs"
    and stream: "rest r = bs @ part" "ending r = UnexpectedEof"
    and incomplete: "length part < 8 \<or> length part < 8 + header_payload_len part"
  shows "conn_loop read_exact put r w
    = Some (ConnectionClosed, fold put (map payload fs) w)"
  using assms by (rule conn_loop_delivers)

theorem receiver_gets_sent_frames_witness:
  "conn_loop chunk_read_exact (\<lambda>p ps. ps @ [p])
     ([[0xC5, 0x53, 1], [1, 0, 0, 0, 2, 7, 8, 0xC5, 0x53], [1, 1, 0, 0, 0, 0, 0xC5]], UnexpectedEof) []
   = Some (ConnectionClosed, [[7, 8], []])"
proof -
  have "encode_stream [new_png [7, 8], new_png []] =
      Inr [0xC5, 0x53, 1, 1, 0, 0, 0, 2, 7, 8, 0xC5, 0x53, 1, 1, 0, 0, 0, 0]"
    by (simp add: to_bytes_def new_png_def MAGIC_def VERSION_def FRAME_TYPE_PNG_def U32_MAX_def
        u32_to_be_bytes_def)
  from receiver_gets_sent_frames [OF chunked.exact_reader_axioms this, where part = "[0xC5]"
      and r = "([[0xC5, 0x53, 1], [1, 0, 0, 0, 2, 7, 8, 0xC5, 0x53], [1, 1, 0, 0, 0, 0, 0xC5]], UnexpectedEof)"
      and put = "\<lambda>p ps. ps @ [p]" and w = "[]"]
  show ?thesis
    by (simp add: chunk_rest_def new_png_def)
qed

text \<open>
  C16. On every stream the receive loop ends, and it computes the reference reading of the stream:
  the payloads of the frames the stream holds, in order, and the error that the stream stops with.
\<close>

theorem conn_loop_reads_stream:
  assumes "exact_reader read_exact rest ending"
  shows "conn_loop read_exact put r w =
     Some (stop_error (ending r) (snd (decode_stream (rest r))),
       fold put (map payload (fst (decode_stream (rest r)))) w)"
  using assms by (rule exact_reader.conn_loop_decodes)

theorem conn_loop_reads_stream_witness:
  "conn_loop chunk_read_exact (\<lambda>p ps. ps @ [p])
     ([[0xC5, 0x53, 1, 1, 0, 0, 0, 1, 9], [0xC5, 0x53, 2, 1, 0, 0, 0, 0, 5]], UnexpectedEof) []
   = Some (FrameErr (UnsupportedVersion 2), [[9]])"
  unfolding conn_loop_reads_stream [OF chunked.exact_reader_axioms]
  by (simp add: decode_stream.simps chunk_rest_def header_payload_len_def u32_from_be_bytes_def
      from_bytes_def HEADER_LEN_def MAGIC_def VERSION_def stop_error_def)

text \<open>
  The only frame errors a receiver can see are a wrong magic number and an unsupported version:
  the length checks of the parser never fail on what \<open>recv_frame\<close> hands to it.
\<close>

theorem received_frame_errors:
  assumes reader: "exact_reader read_exact rest ending"
    and err: "recv_frame read_exact r = (Inl (FrameErr e), r')"
  shows "e = InvalidMagic \<or> (\<exists>v. e = UnsupportedVersion v)"
proof (cases "length (rest r) < 8 \<or> length (rest r) < 8 + header_payload_len (rest r)")
  case True
  with err show ?thesis
    using exact_reader.recv_frame_short [OF reader, of r] by (auto simp: read_error_def split: if_splits)
next
  case False
  with err have "map_err FrameErr (from_bytes (take (8 + header_payload_len (rest r)) (rest r)))
      = Inl (FrameErr e)"
    using exact_reader.recv_frame_full [OF reader, of r] by auto
  then have "from_bytes (take (8 + header_payload_len (rest r)) (rest r)) = Inl e"
    by (cases "from_bytes (take (8 + header_payload_len (rest r)) (rest r))") auto
  from from_bytes_exact_error [OF _ this] False show ?thesis by simp
qed

end
