(* ===== verification/Clipboard_Properties.thy ===== *)
theory Clipboard_Properties
  imports Clipboard "HOL-Library.Sublist"
begin

text \<open>
  What the clipboard code guarantees: a watcher forwards exactly the changes of the clipboard, the
  image found at startup excepted; a writer leaves one holder alive, which serves the last image;
  and the tool that is checked for is the tool that a write starts.
\<close>

section \<open>The changes of a sequence of values\<close>

text \<open>The values that differ from the one before, where the first is compared with \<open>prev\<close>.\<close>

definition changes :: "'a option \<Rightarrow> 'a list \<Rightarrow> 'a list" where
  "changes prev xs =
     (case prev of None \<Rightarrow> remdups_adj xs | Some p \<Rightarrow> tl (remdups_adj (p # xs)))"

lemma changes_simps [simp]:
  "changes prev [] = []"
  "changes prev (x # xs) =
     (if prev = Some x then changes prev xs else x # changes (Some x) xs)"
  by (auto simp: changes_def split: option.splits)

lemma last_changes: "changes prev xs \<noteq> [] \<Longrightarrow> last (changes prev xs) = last xs"
  by (cases xs) (auto simp: changes_def last_tl simp del: changes_simps split: option.splits)

lemma same_hash:
  "inj_on h (insert x S \<union> set_option prev) \<Longrightarrow> Some (h x) = map_option h prev \<longleftrightarrow> prev = Some x"
  by (cases prev) (auto simp: inj_on_def)

section \<open>The interface of a watching loop\<close>

text \<open>
  What the two polling loops have in common: a poll delivers nothing, or the bytes that are hashed
  with the PNG that is sent; it is skipped if the hash is the last one; otherwise, while somebody
  receives, its frame is sent and its hash kept.
\<close>

locale change_watcher =
  fixes hash :: "bytes \<Rightarrow> 'h"
    and loop :: "'h option \<Rightarrow> 'p list \<Rightarrow> Frame list \<times> bool"
    and delivers :: "'p \<Rightarrow> (bytes \<times> bytes) option"
    and rx_open :: "'p \<Rightarrow> bool"
  assumes loop_start: "loop prev [] = ([], False)"
    and loop_nothing: "delivers p = None \<Longrightarrow> loop prev (p # ps) = loop prev ps"
    and loop_same: "delivers p = Some (k, png) \<Longrightarrow> prev = Some (hash k) \<Longrightarrow>
      loop prev (p # ps) = loop prev ps"
    and loop_new: "delivers p = Some (k, png) \<Longrightarrow> prev \<noteq> Some (hash k) \<Longrightarrow> rx_open p \<Longrightarrow>
      loop prev (p # ps) =
        (new_png png # fst (loop (Some (hash k)) ps), snd (loop (Some (hash k)) ps))"
begin

lemma loop_sends_changes:
  assumes "list_all rx_open ps"
    and "inj_on hash (fst ` set (List.map_filter delivers ps) \<union> set_option prev)"
  shows "\<exists>sent. loop (map_option hash prev) ps = (map (new_png \<circ> snd) sent, False)
    \<and> subseq sent (List.map_filter delivers ps)
    \<and> map fst sent = changes prev (map fst (List.map_filter delivers ps))"
  using assms
proof (induction ps arbitrary: prev)
  case Nil
  then show ?case by (simp add: loop_start map_filter_def)
next
  case (Cons p ps)
  show ?case
  proof (cases "delivers p")
    case None
    then show ?thesis using Cons by (simp add: loop_nothing map_filter_def)
  next
    case (Some d)
    obtain k png where d: "d = (k, png)" by (cases d)
    have split: "List.map_filter delivers (p # ps) = (k, png) # List.map_filter delivers ps"
      by (simp add: Some d map_filter_def)
    have inj: "inj_on hash (insert k (fst ` set (List.map_filter delivers ps)) \<union> set_option prev)"
      using Cons.prems(2) unfolding split by simp
    have IH: "\<exists>sent. loop (map_option hash q) ps = (map (new_png \<circ> snd) sent, False)
        \<and> subseq sent (List.map_filter delivers ps)
        \<and> map fst sent = changes q (map fst (List.map_filter delivers ps))"
      if "q = prev \<or> q = Some k" for q
    proof (rule Cons.IH)
      show "list_all rx_open ps" using Cons.prems(1) by simp
      show "inj_on hash (fst ` set (List.map_filter delivers ps) \<union> set_option q)"
        by (rule inj_on_subset [OF inj]) (use that in auto)
    qed
    show ?thesis
    proof (cases "prev = Some k")
      case True
      then have "loop (map_option hash prev) (p # ps) = loop (map_option hash prev) ps"
        using loop_same [of p k png] Some d by simp
      moreover obtain sent where "loop (map_option hash prev) ps = (map (new_png \<circ> snd) sent, False)"
        "subseq sent (List.map_filter delivers ps)"
        "map fst sent = changes prev (map fst (List.map_filter delivers ps))"
        using IH [of prev] by auto
      ultimately show ?thesis
        using True unfolding split by (intro exI [of _ sent]) auto
    next
      case False
      with same_hash [OF inj] have "loop (map_option hash prev) (p # ps) =
          (new_png png # fst (loop (Some (hash k)) ps), snd (loop (Some (hash k)) ps))"
        using loop_new [of p k png "map_option hash prev" ps] Some d Cons.prems(1) by (simp add: eq_commute)
      moreover obtain sent where "loop (Some (hash k)) ps = (map (new_png \<circ> snd) sent, False)"
        "subseq sent (List.map_filter delivers ps)"
        "map fst sent = changes (Some k) (map fst (List.map_filter delivers ps))"
        using IH [of "Some k"] by auto
      ultimately show ?thesis
        using False unfolding split by (intro exI [of _ "(k, png) # sent"]) auto
    qed
  qed
qed

end

section \<open>The watchers\<close>

text \<open>What a poll by a subprocess and one of the library deliver.\<close>

fun command_delivers :: "WatchBackend \<Rightarrow> (command \<Rightarrow> command_outcome) \<times> bool \<Rightarrow> (bytes \<times> bytes) option" where
  "command_delivers b (exec, rx) =
     (case read_clipboard_png exec b of Inr (Some png) \<Rightarrow> Some (png, png) | _ \<Rightarrow> None)"

fun arboard_delivers ::
  "(u32 \<Rightarrow> u32 \<Rightarrow> bytes \<Rightarrow> bytes option) \<Rightarrow> image option \<times> bool \<Rightarrow> (bytes \<times> bytes) option" where
  "arboard_delivers encode (got, rx) =
     (case got of
        None \<Rightarrow> None
      | Some img \<Rightarrow> (case image_to_png encode img of
                       Inl e \<Rightarrow> None | Inr png \<Rightarrow> Some (img_bytes img, png)))"

interpretation by_command: change_watcher h "command_loop h b" "command_delivers b" snd for h b
  by unfold_locales
    (auto simp: split: sum.splits option.splits prod.splits)

interpretation by_arboard: change_watcher h "arboard_loop h encode" "arboard_delivers encode" snd
  for h encode
  by unfold_locales
    (auto simp: Let_def split: sum.splits option.splits prod.splits)

text \<open>The images that the polls of a list deliver.\<close>

definition polled :: "WatchBackend \<Rightarrow> ((command \<Rightarrow> command_outcome) \<times> bool) list \<Rightarrow> bytes list" where
  "polled b polls = map fst (List.map_filter (command_delivers b) polls)"

lemma polled_simps:
  "polled b [] = []"
  "polled b (p # ps) =
     (case read_clipboard_png (fst p) b of Inr (Some i) \<Rightarrow> i # polled b ps | _ \<Rightarrow> polled b ps)"
  by (cases p; auto simp: polled_def map_filter_def split: sum.splits option.splits)+

lemma command_sent: "subseq sent (List.map_filter (command_delivers b) polls) \<Longrightarrow> map snd sent = map fst sent"
proof -
  assume "subseq sent (List.map_filter (command_delivers b) polls)"
  then have "set sent \<subseteq> set (List.map_filter (command_delivers b) polls)"
    by (auto dest: list_emb_set)
  then have "\<forall>d \<in> set sent. snd d = fst d"
    by (fastforce simp: set_map_filter_Some split: sum.splits option.splits)
  then show ?thesis by simp
qed

lemma command_loop_changes:
  assumes "list_all snd polls" and "inj_on h (set (polled b polls) \<union> set_option prev)"
  shows "command_loop h b (map_option h prev) polls
    = (map new_png (changes prev (polled b polls)), False)"
proof -
  from by_command.loop_sends_changes [of polls h b prev] assms obtain sent where
    sent: "command_loop h b (map_option h prev) polls = (map (new_png \<circ> snd) sent, False)"
    "subseq sent (List.map_filter (command_delivers b) polls)"
    "map fst sent = changes prev (polled b polls)"
    by (auto simp: polled_def)
  then show ?thesis using command_sent [OF sent(2)] by (simp flip: map_map)
qed

text \<open>
  C21. While its receiver lives, the watcher sends exactly the changes of the clipboard: the images
  its polls deliver, without repetitions, without the image that was there at startup, and nothing
  for the polls that failed. This needs the hash to tell the images apart.
\<close>
theorem watch_sends_changes:
  assumes "choose_backend display_override wayland_override = Inr b"
    and "read_clipboard_png startup b = Inr first"
    and "list_all snd polls"
    and "inj_on content_hash (set (polled b polls) \<union> set_option first)"
  shows "watch_clipboard_with_command content_hash startup polls display_override wayland_override
    = Inr (map new_png (changes first (polled b polls)), False)"
  by (simp add: watch_clipboard_with_command_def assms(1,2) command_loop_changes [OF assms(3,4)])

theorem watch_sends_changes_witness:
  "watch_clipboard_with_command id (\<lambda>_. Output True [1])
     [(\<lambda>_. Output True [1], True), (\<lambda>_. Output True [2], True), (\<lambda>_. CommandTimeout, True),
      (\<lambda>_. Output True [2], True), (\<lambda>_. Output True [1], True)] (Some '':1'') None
   = Inr ([new_png [2], new_png [1]], False)"
  using watch_sends_changes [of "Some '':1''" None "BackendX11 '':1''" "\<lambda>_. Output True [1]" "Some [1]"
      "[(\<lambda>_. Output True [1], True), (\<lambda>_. Output True [2], True), (\<lambda>_. CommandTimeout, True),
        (\<lambda>_. Output True [2], True), (\<lambda>_. Output True [1], True)]" id]
  by (simp add: choose_backend_def nonempty_def read_clipboard_png_def polled_simps)

text \<open>
  C40. The library watcher too sends the changes only: of the images that can be encoded, in the
  order of the polls, it sends the PNGs of those whose pixel bytes differ from those of the image
  before; an image that cannot be encoded is passed over.
\<close>
theorem arboard_sends_changes:
  assumes "check_x11_display env = Inr () \<or> (\<exists>wd. env ''WAYLAND_DISPLAY'' = Some wd \<and> wd \<noteq> [])"
    and "list_all snd polls"
    and "inj_on content_hash (fst ` set (List.map_filter (arboard_delivers encode) polls)
           \<union> set_option (map_option img_bytes startup))"
  shows "\<exists>sent. watch_clipboard_with_arboard content_hash encode env True startup polls
      = Inr (map (new_png \<circ> snd) sent, False)
    \<and> subseq sent (List.map_filter (arboard_delivers encode) polls)
    \<and> map fst sent = changes (map_option img_bytes startup)
        (map fst (List.map_filter (arboard_delivers encode) polls))"
  using by_arboard.loop_sends_changes [OF assms(2,3)] assms(1)
  by (auto simp: watch_clipboard_with_arboard_def option.map_comp split: option.splits)

theorem arboard_sends_changes_witness:
  "watch_clipboard_with_arboard id (\<lambda>w h b. Some b) (\<lambda>v. Some '':0'') True None
      [(Some \<lparr>img_width = 1, img_height = 1, img_bytes = [1, 2, 3, 4]\<rparr>, True), (None, True)]
    = Inr ([new_png [1, 2, 3, 4]], False)"
  using arboard_sends_changes [of "\<lambda>v. Some '':0''"
      "[(Some \<lparr>img_width = 1, img_height = 1, img_bytes = [1, 2, 3, 4]\<rparr>, True), (None, True)]"
      id "\<lambda>w h b. Some b" None]
  by (auto simp: check_x11_display_def image_to_png_def rgba_to_png_def map_filter_def
      split: if_splits)

text \<open>
  The library watcher hashes the pixels without the dimensions: of an image of two by one
  pixels and then one of one by two with the same bytes only the first is sent, whatever the hash
  and the encoder.
\<close>
theorem reshaped_image_not_sent:
  "arboard_loop content_hash (\<lambda>w h b. Some (encode w h b)) None
     [(Some \<lparr>img_width = 2, img_height = 1, img_bytes = [r, g, b, a, r', g', b', a']\<rparr>, True),
      (Some \<lparr>img_width = 1, img_height = 2, img_bytes = [r, g, b, a, r', g', b', a']\<rparr>, True)]
   = ([new_png (encode 2 1 [r, g, b, a, r', g', b', a'])], False)"
  by (simp add: Let_def image_to_png_def rgba_to_png_def)

section \<open>The writer\<close>

text \<open>A sequence of writes, each with what its subprocess does.\<close>

fun writes ::
  "(string \<Rightarrow> string option) \<Rightarrow> ((command \<Rightarrow> spawn_error option) \<times> nat option \<times> bytes) list
     \<Rightarrow> ClipboardWriter \<times> processes \<Rightarrow> (clip_error + unit) list \<times> ClipboardWriter \<times> processes" where
  "writes env [] s = ([], s)"
| "writes env ((sp, err, png) # ws) s =
     (let (r, s') = write_png env sp err png s; (rs, s'') = writes env ws s' in (r # rs, s''))"

definition stdin_failures :: "(clip_error + unit) list \<Rightarrow> nat" where
  "stdin_failures rs = length (filter (\<lambda>r. case r of Inl (StdinWriteFailed e) \<Rightarrow> True | _ \<Rightarrow> False) rs)"

text \<open>
  Between writes there are \<open>n\<close> abandoned processes, and one more, the child the writer remembers,
  if the last write succeeded.
\<close>

definition writer_ok :: "nat \<Rightarrow> ClipboardWriter \<times> processes \<Rightarrow> bool" where
  "writer_ok n = (\<lambda>(wr, ps).
     distinct (map fst (holders ps)) \<and> (\<forall>(i, _) \<in> set (holders ps). i < next_child ps)
     \<and> length (holders ps) = n + (if current_child wr = None then 0 else 1)
     \<and> (\<forall>c. current_child wr = Some c \<longrightarrow> c \<in> fst ` set (holders ps)))"

lemma kill_child_count:
  assumes "distinct (map fst hs)" and "c \<in> fst ` set hs"
  shows "Suc (length (filter (\<lambda>(i, _). i \<noteq> c) hs)) = length hs"
  using assms
proof (induction hs)
  case (Cons x hs)
  show ?case
  proof (cases "fst x = c")
    case True
    then have "filter (\<lambda>(i, _). i \<noteq> c) hs = hs"
      using Cons.prems by (auto simp: filter_id_conv rev_image_eqI)
    with True show ?thesis by (auto split: prod.splits)
  next
    case False
    with Cons show ?thesis by (auto split: prod.splits)
  qed
qed simp

lemma writer_ok_released:
  assumes "writer_ok n (wr, ps)"
  shows "writer_ok n (wr\<lparr>current_child := None\<rparr>,
    case current_child wr of Some c \<Rightarrow> kill_child c ps | None \<Rightarrow> ps)"
proof (cases "current_child wr")
  case (Some c)
  with assms have "distinct (map fst (holders ps))" "c \<in> fst ` set (holders ps)"
    by (auto simp: writer_ok_def)
  from kill_child_count [OF this] assms Some show ?thesis
    by (auto simp: writer_ok_def kill_child_def distinct_map inj_on_def)
qed (use assms in \<open>simp add: writer_ok_def\<close>)

definition started ::
  "nat option \<Rightarrow> command \<Rightarrow> bytes \<Rightarrow> ClipboardWriter \<times> processes \<Rightarrow> ClipboardWriter \<times> processes" where
  "started stdin_error cmd png = (\<lambda>(wr, ps).
     (if stdin_error = None then wr\<lparr>current_child := Some (next_child ps)\<rparr> else wr,
      ps\<lparr>holders := (next_child ps, cmd, if stdin_error = None then Some png else None) # holders ps,
         next_child := next_child ps + 1\<rparr>))"

lemma started_ok:
  assumes "writer_ok n (wr, ps)" and "current_child wr = None"
  shows "writer_ok (if err = None then n else Suc n) (started err cmd png (wr, ps))"
  using assms by (force simp: writer_ok_def started_def)

text \<open>A write releases the previous child, and then fails at once or starts a process.\<close>

lemma write_png_cases:
  assumes "write_png env sp err png (wr, ps) = (r, s')"
    and "s1 = (wr\<lparr>current_child := None\<rparr>,
           case current_child wr of Some c \<Rightarrow> kill_child c ps | None \<Rightarrow> ps)"
  obtains (failed) e where "r = Inl e" "\<forall>x. e \<noteq> StdinWriteFailed x" "s' = s1"
  | (wrote) cmd where "write_command env (display wr) (display_str wr) = Some cmd" "sp cmd = None"
      "r = (case err of None \<Rightarrow> Inr () | Some x \<Rightarrow> Inl (StdinWriteFailed x))"
      "s' = started err cmd png s1"
  using assms
  by (auto simp: write_png_def started_def Let_def split: option.splits spawn_error.splits)

lemma write_png_ok:
  assumes "writer_ok n (wr, ps)" and "write_png env sp err png (wr, ps) = (r, s')"
  shows "writer_ok (n + stdin_failures [r]) s'
    \<and> (current_child (fst s') \<noteq> None \<longleftrightarrow> r = Inr ())
    \<and> display (fst s') = display wr \<and> display_str (fst s') = display_str wr
    \<and> (r = Inr () \<longrightarrow> (\<exists>c cmd. current_child (fst s') = Some c
          \<and> write_command env (display wr) (display_str wr) = Some cmd
          \<and> (c, cmd, Some png) \<in> set (holders (snd s'))))"
  using assms(2) refl
proof (cases rule: write_png_cases)
  case (failed e)
  with writer_ok_released [OF assms(1)] show ?thesis
    by (auto simp: stdin_failures_def split: clip_error.splits)
next
  case (wrote cmd)
  with started_ok [OF writer_ok_released [OF assms(1)], of err cmd png] show ?thesis
    by (auto simp: stdin_failures_def started_def split: option.splits if_splits)
qed

lemma writes_ok:
  assumes "writes env ws (wr, ps) = (rs, s')" and "writer_ok n (wr, ps)"
  shows "length rs = length ws \<and> writer_ok (n + stdin_failures rs) s'
    \<and> (ws \<noteq> [] \<longrightarrow> (current_child (fst s') \<noteq> None \<longleftrightarrow> last rs = Inr ())
        \<and> (last rs = Inr () \<longrightarrow> (\<exists>c cmd. current_child (fst s') = Some c
            \<and> write_command env (display wr) (display_str wr) = Some cmd
            \<and> (c, cmd, Some (snd (snd (last ws)))) \<in> set (holders (snd s')))))"
  using assms
proof (induction ws arbitrary: wr ps n rs)
  case (Cons w ws)
  obtain sp err png where w: "w = (sp, err, png)" by (cases w)
  obtain r wr1 ps1 where one: "write_png env sp err png (wr, ps) = (r, wr1, ps1)"
    by (metis prod_cases3)
  obtain rs1 where more: "writes env ws (wr1, ps1) = (rs1, s')" and rs: "rs = r # rs1"
    using Cons.prems(1) by (auto simp: w one split: prod.splits)
  note ok = write_png_ok [OF Cons.prems(2) one, simplified]
  note IH = Cons.IH [OF more conjunct1 [OF ok]]
  have "n + stdin_failures [r] + stdin_failures rs1 = n + stdin_failures rs"
    by (simp add: stdin_failures_def rs)
  with IH ok show ?case
    by (cases "ws = []") (use more in \<open>auto simp: rs w\<close>)
qed (simp add: stdin_failures_def)

lemma new_writer_ok: "writer_ok 0 (new_writer d dstr, \<lparr>holders = [], next_child = 0\<rparr>)"
  by (simp add: writer_ok_def new_writer_def)

text \<open>
  C22. After any sequence of writes the processes still running are one for each write whose input
  pipe broke, which nobody kills any more, and, if the last write succeeded, the one child the
  writer remembers: it was started by the command for the writer's display and holds the bytes of
  the last write in full. If the last write failed the writer remembers no child.
\<close>
theorem writer_keeps_one_holder:
  assumes "writes env ws (new_writer d dstr, \<lparr>holders = [], next_child = 0\<rparr>) = (rs, wr, ps)"
    and "ws \<noteq> []"
  shows "length (holders ps) = stdin_failures rs + (if last rs = Inr () then 1 else 0)
    \<and> (current_child wr \<noteq> None \<longleftrightarrow> last rs = Inr ())
    \<and> (last rs = Inr () \<longrightarrow> (\<exists>c cmd. current_child wr = Some c \<and> write_command env d dstr = Some cmd
        \<and> (c, cmd, Some (snd (snd (last ws)))) \<in> set (holders ps)))"
  using writes_ok [OF assms(1) new_writer_ok] assms(2)
  by (auto simp: writer_ok_def new_writer_def)

theorem writer_keeps_one_holder_witness:
  "\<exists>rs wr ps. writes (\<lambda>v. None) [(\<lambda>c. None, None, [1]), (\<lambda>c. None, Some 32, [2]), (\<lambda>c. None, None, [3])]
       (new_writer Xvfb (Some '':7''), \<lparr>holders = [], next_child = 0\<rparr>) = (rs, wr, ps)
     \<and> length (holders ps) = 2 \<and> current_child wr \<noteq> None"
proof -
  obtain rs wr ps where run: "writes (\<lambda>v. None)
      [(\<lambda>c. None, None, [1]), (\<lambda>c. None, Some 32, [2]), (\<lambda>c. None, None, [3])]
      (new_writer Xvfb (Some '':7''), \<lparr>holders = [], next_child = 0\<rparr>) = (rs, wr, ps)"
    by (metis prod_cases3)
  then have "rs = [Inr (), Inl (StdinWriteFailed 32), Inr ()]"
    by (auto simp: write_png_def write_command_def new_writer_def Let_def split: prod.splits)
  with writer_keeps_one_holder [OF run] run show ?thesis by (auto simp: stdin_failures_def)
qed

section \<open>The tools\<close>

text \<open>
  The tool check succeeds iff the display can be written to and the tool found is the program
  that a write starts on that display.
\<close>
theorem checked_tool_is_started:
  "check_clipboard_tools which d = Inr ()
   \<longleftrightarrow> (\<exists>cmd. write_command env d dstr = Some cmd \<and> which (program cmd) = Inr True)"
  by (cases d)
    (auto simp: check_clipboard_tools_def tool_present_def write_command_def Let_def
      split: sum.splits if_splits)

end
