(* ===== verification/Relay.thy ===== *)
theory Relay
  imports Transport Clipboard_Properties
begin

text \<open>
  The way of an image from one clipboard to another: watched on one machine, framed, sent, received
  and handed to the clipboard writer of the other (\<open>watch_clipboard\<close>, \<open>send_frame\<close>, the receive
  loop of \<open>run_tcp_server\<close>, \<open>ClipboardWriter::write\<close>). Between the watcher and the socket the
  daemon's channels keep the frames in order; what a channel that overflows does is the subject of
  \<open>Fanout_Properties\<close>.
\<close>

text \<open>What the receive loop does with a payload: an error of the writer is only logged.\<close>

definition receive_payload ::
  "(string \<Rightarrow> string option) \<Rightarrow> (command \<Rightarrow> spawn_error option) \<Rightarrow> bytes
     \<Rightarrow> ClipboardWriter \<times> processes \<Rightarrow> ClipboardWriter \<times> processes" where
  "receive_payload env spawn_result png s = snd (write_png env spawn_result None png s)"

definition no_processes :: processes where
  "no_processes = \<lparr>holders = [], next_child = 0\<rparr>"

lemma fold_receive_writes:
  "fold (receive_payload env sp) ps s = snd (writes env (map (\<lambda>p. (sp, None, p)) ps) s)"
  by (induction ps arbitrary: s) (auto simp: receive_payload_def split: prod.splits)

lemma writes_succeed:
  assumes "write_command env (display wr) (display_str wr) = Some cmd" "sp cmd = None"
  shows "fst (writes env (map (\<lambda>p. (sp, None, p)) ps) (wr, pr)) = replicate (length ps) (Inr ())"
  using assms
proof (induction ps arbitrary: wr pr)
  case (Cons p ps)
  obtain wr1 pr1 where one: "write_png env sp None p (wr, pr) = (Inr (), wr1, pr1)"
    "display wr1 = display wr" "display_str wr1 = display_str wr"
    using Cons.prems by (auto simp: write_png_def Let_def)
  with Cons.IH [of wr1 pr1] Cons.prems show ?case by (auto split: prod.splits)
qed simp

text \<open>A writer whose tool works ends up with one child, which holds the last payload.\<close>

lemma last_payload_held:
  assumes "write_command env d dstr = Some cmd" "sp cmd = None" "ps \<noteq> []"
  shows "\<exists>wr pr c. fold (receive_payload env sp) ps (new_writer d dstr, no_processes) = (wr, pr)
    \<and> current_child wr = Some c \<and> holders pr = [(c, cmd, Some (last ps))]"
proof -
  let ?ws = "map (\<lambda>p. (sp, None :: nat option, p)) ps"
  obtain rs wr pr where run: "writes env ?ws (new_writer d dstr, no_processes) = (rs, wr, pr)"
    by (metis prod_cases3)
  have rs: "rs = replicate (length ps) (Inr ())"
    using writes_succeed [of env "new_writer d dstr" cmd sp ps no_processes] assms(1,2) run
    by (simp add: new_writer_def)
  then have good: "stdin_failures rs = 0" "last rs = Inr ()" "rs \<noteq> []"
    using assms(3) by (simp_all add: stdin_failures_def)
  from writes_ok [OF run [unfolded no_processes_def] new_writer_ok] good assms(1,3)
  obtain c where "current_child wr = Some c" "length (holders pr) = 1"
      "(c, cmd, Some (last ps)) \<in> set (holders pr)"
    by (auto simp: writer_ok_def new_writer_def last_map)
  then show ?thesis
    by (auto simp: fold_receive_writes run length_Suc_conv)
qed

text \<open>
  C1. From clipboard to clipboard: if the watcher of one machine has seen the clipboard change, and
  its frames are sent to another machine whose clipboard tool works, then the clipboard of the
  other machine serves the image that the watcher saw last.
\<close>
theorem last_image_crosses:
  assumes "choose_backend display_override wayland_override = Inr b"
    and "read_clipboard_png startup b = Inr first"
    and "list_all snd polls"
    and "inj_on content_hash (set (polled b polls) \<union> set_option first)"
    and "changes first (polled b polls) \<noteq> []"
    and "exact_reader read_exact rest ending" and "ending r = UnexpectedEof"
    and "encode_stream (map new_png (changes first (polled b polls))) = Inr (rest r)"
    and "write_command env d dstr = Some cmd" and "spawn_result cmd = None"
  shows "\<exists>fs wr pr c. watch_clipboard_with_command content_hash startup polls display_override wayland_override
      = Inr (fs, False) \<and> encode_stream fs = Inr (rest r)
    \<and> conn_loop read_exact (receive_payload env spawn_result) r (new_writer d dstr, no_processes)
      = Some (ConnectionClosed, wr, pr)
    \<and> current_child wr = Some c \<and> holders pr = [(c, cmd, Some (last (polled b polls)))]"
proof -
  let ?imgs = "changes first (polled b polls)"
  have watched: "watch_clipboard_with_command content_hash startup polls display_override wayland_override
      = Inr (map new_png ?imgs, False)"
    by (simp add: watch_clipboard_with_command_def assms(1,2) command_loop_changes [OF assms(3,4)])
  have imgs: "map payload (map new_png ?imgs) = ?imgs" "last ?imgs = last (polled b polls)"
    using assms(5) by (simp_all add: new_png_def comp_def last_changes)
  from conn_loop_delivers [OF assms(6,8), of r "[]"] assms(7)
  have "conn_loop read_exact (receive_payload env spawn_result) r (new_writer d dstr, no_processes)
      = Some (ConnectionClosed, fold (receive_payload env spawn_result) ?imgs (new_writer d dstr, no_processes))"
    by (simp only: imgs) simp
  with last_payload_held [where sp = spawn_result and cmd = cmd, OF assms(9,10,5)] watched assms(8) imgs(2) show ?thesis by auto
qed

theorem last_image_crosses_witness:
  "\<exists>fs wr pr c cmd. watch_clipboard_with_command id (\<lambda>_. Output True [1])
      [(\<lambda>_. Output True [7, 8], True), (\<lambda>_. CommandTimeout, True), (\<lambda>_. Output True [7, 8], True)]
      (Some '':1'') None = Inr (fs, False)
    \<and> encode_stream fs = Inr [0xC5, 0x53, 1, 1, 0, 0, 0, 2, 7, 8]
    \<and> conn_loop chunk_read_exact (receive_payload (\<lambda>v. None) (\<lambda>c. None))
      ([[0xC5, 0x53, 1], [1, 0, 0, 0, 2, 7, 8]], UnexpectedEof)
      (new_writer Wayland None, no_processes) = Some (ConnectionClosed, wr, pr)
    \<and> current_child wr = Some c \<and> holders pr = [(c, cmd, Some [7, 8])]"
proof -
  let ?polls = "[(\<lambda>_. Output True [7, 8], True), (\<lambda>_. CommandTimeout, True), (\<lambda>_. Output True [7, 8], True)]"
  let ?r = "([[0xC5, 0x53, 1], [1, 0, 0, 0, 2, 7, 8]], UnexpectedEof)"
  let ?b = "BackendX11 '':1''"
  have polled: "polled ?b ?polls = [[7, 8], [7, 8]]"
    by (simp add: polled_simps read_clipboard_png_def)
  obtain cmd where cmd: "write_command (\<lambda>v. None) Wayland None = Some cmd"
    by (simp add: write_command_def)
  have enc: "encode_stream (map new_png (changes (Some [1]) (polled ?b ?polls))) = Inr (chunk_rest ?r)"
    by (simp add: polled to_bytes_def new_png_def MAGIC_def VERSION_def FRAME_TYPE_PNG_def
        U32_MAX_def u32_to_be_bytes_def chunk_rest_def)
  have b: "choose_backend (Some '':1'') None = Inr ?b"
    by (simp add: choose_backend_def nonempty_def)
  have first: "read_clipboard_png (\<lambda>_. Output True [1]) ?b = Inr (Some [1])"
    by (simp add: read_clipboard_png_def)
  from last_image_crosses [OF b first, of ?polls id, OF _ _ _ chunked.exact_reader_axioms _ enc cmd,
      of "\<lambda>c. None"]
  show ?thesis by (auto simp: polled chunk_rest_def)
qed

end
