(* ===== verification/Selection.thy ===== *)
theory Selection
  imports Relay
begin

text \<open>
  Which clipboard the commands of \<^verbatim>\<open>src/src/clipboard.rs\<close> act on, and who serves it. The clipboard of a
  display has one owner at a time: a program that takes it over replaces the owner before, and when
  the owner is killed the clipboard is empty, although a program that had lost it may still run. This
  is the selection of X11 and of Wayland, of which the source says that the tools \<open>must stay alive to
  service paste events\<close>.
\<close>

section \<open>Displays\<close>

datatype screen = XScreen string | WaylandScreen string

fun argument_after :: "string \<Rightarrow> string list \<Rightarrow> string option" where
  "argument_after opt (a # b # args) = (if a = opt then Some b else argument_after opt (b # args))"
| "argument_after opt args = None"

text \<open>
  The display a command acts on: \<^verbatim>\<open>xclip\<close> takes it from its option \<^verbatim>\<open>-display\<close> and otherwise from the
  environment, the Wayland tools take it from the environment, in which the caller may set it.
\<close>

definition command_screen :: "(string \<Rightarrow> string option) \<Rightarrow> command \<Rightarrow> screen option" where
  "command_screen env cmd =
     (if program cmd = ''xclip''
      then map_option XScreen (case argument_after ''-display'' (arguments cmd) of
             Some d \<Rightarrow> Some d | None \<Rightarrow> env ''DISPLAY'')
      else map_option WaylandScreen (case map_of (env_set cmd) ''WAYLAND_DISPLAY'' of
             Some d \<Rightarrow> Some d | None \<Rightarrow> env ''WAYLAND_DISPLAY''))"

lemma read_command_screen [simp]:
  "command_screen env (read_command (BackendX11 d)) = Some (XScreen d)"
  "command_screen env (read_command (BackendWayland wd)) = Some (WaylandScreen wd)"
  by (simp_all add: command_screen_def read_command_def)

lemma xvfb_write_command:
  obtains cmd where "write_command env Xvfb (Some d) = Some cmd" "command_screen env cmd = Some (XScreen d)"
  by (simp add: write_command_def command_screen_def Let_def)

section \<open>Owners\<close>

text \<open>
  What a clipboard holds: nothing, or an image with the clipboard process of the daemon that serves
  it, or with no such process when another program does.
\<close>

type_synonym clipboard = "(bytes \<times> nat option) option"

text \<open>A process that is gone serves nothing.\<close>

definition still_served :: "processes \<Rightarrow> clipboard \<Rightarrow> clipboard" where
  "still_served ps cl =
     (case cl of
        Some (img, Some k) \<Rightarrow> if k \<in> fst ` set (holders ps) then cl else None
      | _ \<Rightarrow> cl)"

text \<open>
  The clipboards after a write, from its result and the processes it left: the process that a
  successful write has started takes over the clipboard of its display.
\<close>

definition serve ::
  "(string \<Rightarrow> string option) \<Rightarrow> clip_error + unit \<Rightarrow> processes \<Rightarrow> (screen \<Rightarrow> clipboard)
     \<Rightarrow> screen \<Rightarrow> clipboard" where
  "serve env r ps clips =
     (let kept = (\<lambda>c. still_served ps (clips c)) in
      case (r, holders ps) of
        (Inr _, (k, cmd, Some png) # _) \<Rightarrow>
          (case command_screen env cmd of Some c \<Rightarrow> kept(c := Some (png, Some k)) | None \<Rightarrow> kept)
      | _ \<Rightarrow> kept)"

text \<open>A writer whose tool can be started, and one whose tool cannot.\<close>

definition others :: "ClipboardWriter \<Rightarrow> processes \<Rightarrow> (nat \<times> command \<times> bytes option) list" where
  "others wr ps = filter (\<lambda>x. current_child wr \<noteq> Some (fst x)) (holders ps)"

lemma released: "(case current_child wr of Some c \<Rightarrow> kill_child c ps | None \<Rightarrow> ps) = ps\<lparr>holders := others wr ps\<rparr>"
  by (auto simp: others_def kill_child_def split: option.splits intro!: processes.equality filter_cong)

lemma write_starts:
  assumes "write_command env (display wr) (display_str wr) = Some cmd" and "sp cmd = None"
  shows "write_png env sp None png (wr, ps) = (Inr (), wr\<lparr>current_child := Some (next_child ps)\<rparr>,
      \<lparr>holders = (next_child ps, cmd, Some png) # others wr ps, next_child = Suc (next_child ps)\<rparr>)"
  using assms by (simp add: write_png_def released Let_def)

lemma write_fails:
  assumes "write_command env (display wr) (display_str wr) = Some cmd" and "sp cmd = Some e"
  shows "\<exists>er. write_png env sp None png (wr, ps)
    = (Inl er, wr\<lparr>current_child := None\<rparr>, ps\<lparr>holders := others wr ps\<rparr>)"
  using assms by (simp add: write_png_def released Let_def split: spawn_error.split)

lemma serve_taken:
  "command_screen env cmd = Some c \<Longrightarrow> serve env (Inr u) \<lparr>holders = (k, cmd, Some png) # hs, next_child = n\<rparr> clips
     = (\<lambda>d. still_served \<lparr>holders = (k, cmd, Some png) # hs, next_child = n\<rparr> (clips d))(c := Some (png, Some k))"
  by (simp add: serve_def)

lemma serve_failed: "serve env (Inl e) ps clips = (\<lambda>d. still_served ps (clips d))"
  by (simp add: serve_def)

lemma still_served_others [simp]: "still_served ps None = None" "still_served ps (Some (img, None)) = Some (img, None)"
  by (simp_all add: still_served_def)

lemma in_others: "k \<in> fst ` set (others wr ps) \<longleftrightarrow> k \<in> fst ` set (holders ps) \<and> current_child wr \<noteq> Some k"
  by (force simp: others_def)

end
