(* ===== verification/Mesh.thy ===== *)
theory Mesh
  imports Selection Startup_Properties
begin

text \<open>
  Machines that are connected to each other in any way, each with a running daemon: it watches one
  clipboard, sends what is new on it to the machines it is connected to and writes what it receives to
  the clipboard of its own Xvfb. Which clipboard is watched is what the start of the daemon decides
  (\<open>Startup\<close>): that of the desktop if there was one, otherwise that of the Xvfb. So a machine without
  a desktop passes on what it receives, and a machine with one does not. What is shown is that one
  copied image reaches every machine there is a path to through machines without a desktop, and comes
  to rest; that two images copied at the same time on two machines without a desktop do not; and that
  a machine with a desktop sends nothing but what was copied on it. Links keep the frames in order
  (\<open>Fanout_Properties\<close>), each inbound connection has a queue and a writer of its own, and a clipboard
  has the owner that \<open>Selection\<close> gives it.
\<close>

section \<open>One poll of the watcher\<close>

text \<open>One turn of the polling loop: what is sent, the hash kept, and whether the loop returns.\<close>

definition command_turn ::
  "(bytes \<Rightarrow> 'h) \<Rightarrow> WatchBackend \<Rightarrow> 'h option \<Rightarrow> (command \<Rightarrow> command_outcome) \<times> bool
     \<Rightarrow> Frame list \<times> 'h option \<times> bool" where
  "command_turn content_hash b last_hash = (\<lambda>(exec, rx_open).
     case read_clipboard_png exec b of
       Inr (Some png_bytes) \<Rightarrow>
         if Some (content_hash png_bytes) = last_hash then ([], last_hash, False)
         else if \<not> rx_open then ([], last_hash, True)
         else ([new_png png_bytes], Some (content_hash png_bytes), False)
     | _ \<Rightarrow> ([], last_hash, False))"

lemma command_loop_turns:
  "command_loop content_hash b last_hash (p # polls) =
     (let (fs, last_hash', returned) = command_turn content_hash b last_hash p in
      if returned then (fs, True)
      else let (gs, returned') = command_loop content_hash b last_hash' polls in (fs @ gs, returned'))"
  by (cases p) (auto simp: command_turn_def Let_def split: sum.splits option.splits prod.splits)

section \<open>The machines\<close>

text \<open>
  A machine: what is on the clipboards of its displays, the hash its watcher keeps, the frames that
  are on their way to it from each machine, the clipboard writer of each of these connections, and
  the clipboard processes.
\<close>

record ('n, 'h) machine =
  clips :: "screen \<Rightarrow> clipboard"
  seen :: "'h option"
  inbox :: "'n \<Rightarrow> Frame list"
  conn_writer :: "'n \<Rightarrow> ClipboardWriter"
  children :: processes

text \<open>What a display shows; what the reading tool finds; the poll of a watcher that is listened to.\<close>

definition shows_image :: "screen \<Rightarrow> ('n, 'h) machine \<Rightarrow> bytes option" where
  "shows_image c m = map_option fst (clips m c)"

definition reads_screen :: "(string \<Rightarrow> string option) \<Rightarrow> ('n, 'h) machine \<Rightarrow> command \<Rightarrow> command_outcome" where
  "reads_screen env m cmd =
     (case Option.bind (command_screen env cmd) (\<lambda>c. shows_image c m) of
        None \<Rightarrow> Output False [] | Some png \<Rightarrow> Output True png)"

definition poll ::
  "(bytes \<Rightarrow> 'h) \<Rightarrow> (string \<Rightarrow> string option) \<Rightarrow> WatchBackend \<Rightarrow> ('n, 'h) machine
     \<Rightarrow> ('n, 'h) machine \<times> Frame list" where
  "poll hash env b m =
     (let (fs, last_hash, _) = command_turn hash b (seen m) (reads_screen env m, True)
      in (m\<lparr>seen := last_hash\<rparr>, fs))"

text \<open>
  The next frame of a connection is received and written; an error of the writer is only logged.
\<close>

definition receive ::
  "(string \<Rightarrow> string option) \<Rightarrow> (command \<Rightarrow> spawn_error option) \<Rightarrow> 'n \<Rightarrow> ('n, 'h) machine
     \<Rightarrow> ('n, 'h) machine" where
  "receive env spawn_result u m =
     (case inbox m u of
        [] \<Rightarrow> m
      | f # fs \<Rightarrow>
          let (r, wr, ps) = write_png env spawn_result None (payload f) (conn_writer m u, children m)
          in m\<lparr>inbox := (inbox m)(u := fs), conn_writer := (conn_writer m)(u := wr), children := ps,
               clips := serve env r ps (clips m)\<rparr>)"

section \<open>The mesh\<close>

text \<open>
  What a mesh of machines \<open>'n\<close> consists of: the hash, what each daemon met at its start, the files and
  the environment it started in, the clipboard tools of each machine, and the machines that each has
  a connection to.
\<close>

record ('n, 'h) network =
  content_hash :: "bytes \<Rightarrow> 'h"
  start_of :: "'n \<Rightarrow> start_world"
  host_of :: "'n \<Rightarrow> host"
  tools :: "'n \<Rightarrow> command \<Rightarrow> spawn_error option"
  peers_of :: "'n \<Rightarrow> 'n list"

text \<open>The daemon that the start has left running, its environment, and its watcher's backend.\<close>

definition daemon_at :: "('n, 'h) network \<Rightarrow> 'n \<Rightarrow> running_daemon option" where
  "daemon_at N v = (case fst (start_daemon (start_of N v) (host_of N v)) of Inr d \<Rightarrow> Some d | Inl _ \<Rightarrow> None)"

definition env_at :: "('n, 'h) network \<Rightarrow> 'n \<Rightarrow> string \<Rightarrow> string option" where
  "env_at N v = host_env (snd (start_daemon (start_of N v) (host_of N v)))"

definition backend_at :: "('n, 'h) network \<Rightarrow> 'n \<Rightarrow> WatchBackend option" where
  "backend_at N v = Option.bind (daemon_at N v) (\<lambda>d.
     case choose_backend (fst (rd_watcher d)) (snd (rd_watcher d)) of Inr b \<Rightarrow> Some b | Inl _ \<Rightarrow> None)"

text \<open>The writer of a new inbound connection.\<close>

definition writer_at :: "('n, 'h) network \<Rightarrow> 'n \<Rightarrow> ClipboardWriter option" where
  "writer_at N v = map_option (\<lambda>d. new_writer (dm_env (rd_display d)) (Some (dm_display_str (rd_display d))))
     (daemon_at N v)"

datatype 'n mesh_event = Poll 'n | Receive 'n 'n

text \<open>Frames are put on the way from a machine to each of some machines.\<close>

definition push :: "'n \<Rightarrow> 'n list \<Rightarrow> Frame list \<Rightarrow> ('n \<Rightarrow> ('n, 'h) machine) \<Rightarrow> 'n \<Rightarrow> ('n, 'h) machine" where
  "push v us fs \<sigma> =
     (\<lambda>u. if u \<in> set us then (\<sigma> u)\<lparr>inbox := (inbox (\<sigma> u))(v := inbox (\<sigma> u) v @ fs)\<rparr> else \<sigma> u)"

fun mesh_step ::
  "('n, 'h) network \<Rightarrow> 'n mesh_event \<Rightarrow> ('n \<Rightarrow> ('n, 'h) machine) \<Rightarrow> 'n \<Rightarrow> ('n, 'h) machine" where
  "mesh_step N (Poll v) \<sigma> =
     (case backend_at N v of
        None \<Rightarrow> \<sigma>
      | Some b \<Rightarrow> let (m, fs) = poll (content_hash N) (env_at N v) b (\<sigma> v)
                  in push v (peers_of N v) fs (\<sigma>(v := m)))"
| "mesh_step N (Receive v u) \<sigma> =
     (case daemon_at N v of
        None \<Rightarrow> \<sigma> | Some d \<Rightarrow> \<sigma>(v := receive (env_at N v) (tools N v) u (\<sigma> v)))"

text \<open>The clipboard that is watched, and the one that is written to.\<close>

definition watched :: "('n, 'h) network \<Rightarrow> 'n \<Rightarrow> screen option" where
  "watched N v = Option.bind (backend_at N v) (\<lambda>b. command_screen (env_at N v) (read_command b))"

definition written :: "('n, 'h) network \<Rightarrow> 'n \<Rightarrow> screen option" where
  "written N v = map_option (\<lambda>d. XScreen (dm_display_str (rd_display d))) (daemon_at N v)"

definition headless :: "('n, 'h) network \<Rightarrow> 'n \<Rightarrow> bool" where
  "headless N v \<longleftrightarrow> nonempty (host_env (host_of N v) ''DISPLAY'') = None
     \<and> nonempty (host_env (host_of N v) ''WAYLAND_DISPLAY'') = None"

lemma started_at:
  assumes "daemon_at N v = Some d"
  obtains w' where "start_daemon (start_of N v) (host_of N v) = (Inr d, w')"
  using assms by (cases "start_daemon (start_of N v) (host_of N v)") (auto simp: daemon_at_def split: sum.splits)

lemma daemon_displays:
  assumes "daemon_at N v = Some d"
  shows "dm_env (rd_display d) = Xvfb" and "dm_display_str (rd_display d) \<noteq> []"
    and "rd_watcher d = watcher_displays (host_env (host_of N v) ''DISPLAY'')
      (host_env (host_of N v) ''WAYLAND_DISPLAY'') (rd_display d)"
proof -
  obtain w' where w': "start_daemon (start_of N v) (host_of N v) = (Inr d, w')"
    using started_at [OF assms] .
  then show "dm_env (rd_display d) = Xvfb" "dm_display_str (rd_display d) \<noteq> []"
    "rd_watcher d = watcher_displays (host_env (host_of N v) ''DISPLAY'')
      (host_env (host_of N v) ''WAYLAND_DISPLAY'') (rd_display d)"
    by (rule started_daemon, auto dest!: detect_env)+
qed

text \<open>Without a desktop both are the clipboard of the Xvfb; with one, the desktop's is watched.\<close>

lemma screens:
  assumes "daemon_at N v = Some d"
  shows "written N v = Some (XScreen (dm_display_str (rd_display d)))"
    and "watched N v = Some (case nonempty (host_env (host_of N v) ''WAYLAND_DISPLAY'') of
        Some wd \<Rightarrow> WaylandScreen wd
      | None \<Rightarrow> (case nonempty (host_env (host_of N v) ''DISPLAY'') of
          Some x \<Rightarrow> XScreen x | None \<Rightarrow> XScreen (dm_display_str (rd_display d))))"
    and "headless N v \<Longrightarrow> watched N v = written N v"
proof -
  show *: "written N v = Some (XScreen (dm_display_str (rd_display d)))"
    by (simp add: written_def assms)
  show **: "watched N v = Some (case nonempty (host_env (host_of N v) ''WAYLAND_DISPLAY'') of
        Some wd \<Rightarrow> WaylandScreen wd
      | None \<Rightarrow> (case nonempty (host_env (host_of N v) ''DISPLAY'') of
          Some x \<Rightarrow> XScreen x | None \<Rightarrow> XScreen (dm_display_str (rd_display d))))"
    using daemon_displays [OF assms] nonempty_cases [of "host_env (host_of N v) ''DISPLAY''"]
      nonempty_cases [of "host_env (host_of N v) ''WAYLAND_DISPLAY''"]
    by (auto simp: watched_def backend_at_def assms watcher_displays_def choose_backend_def Let_def)
  show "watched N v = written N v" if "headless N v"
    using that by (simp add: * ** headless_def)
qed

text \<open>
  A machine as its daemon keeps it: every connection has a writer to the daemon's display, and a
  clipboard that is watched but not written to is not served by a process of the daemon.
\<close>

definition at_home :: "('n, 'h) network \<Rightarrow> 'n list \<Rightarrow> 'n \<Rightarrow> ('n, 'h) machine \<Rightarrow> bool" where
  "at_home N V v m \<longleftrightarrow>
     (case writer_at N v of
        None \<Rightarrow> False
      | Some w \<Rightarrow> list_all (\<lambda>u. display (conn_writer m u) = display w
          \<and> display_str (conn_writer m u) = display_str w) V)
     \<and> (watched N v = written N v \<or> Option.bind (watched N v) (\<lambda>c. Option.bind (clips m c) snd) = None)"

definition tool_works :: "('n, 'h) network \<Rightarrow> 'n \<Rightarrow> bool" where
  "tool_works N v \<longleftrightarrow>
     (case Option.bind (writer_at N v) (\<lambda>w. write_command (env_at N v) (display w) (display_str w)) of
        None \<Rightarrow> False | Some cmd \<Rightarrow> tools N v cmd = None)"

definition watched_image :: "('n, 'h) network \<Rightarrow> 'n \<Rightarrow> ('n, 'h) machine \<Rightarrow> bytes option" where
  "watched_image N v m = Option.bind (watched N v) (\<lambda>c. shows_image c m)"

definition written_image :: "('n, 'h) network \<Rightarrow> 'n \<Rightarrow> ('n, 'h) machine \<Rightarrow> bytes option" where
  "written_image N v m = Option.bind (written N v) (\<lambda>c. shows_image c m)"

text \<open>The watcher has nothing new to send.\<close>

definition quiet :: "('n, 'h) network \<Rightarrow> 'n \<Rightarrow> ('n, 'h) machine \<Rightarrow> bool" where
  "quiet N v m \<longleftrightarrow>
     (case watched_image N v m of
        None \<Rightarrow> True | Some png \<Rightarrow> png = [] \<or> seen m = Some (content_hash N png))"

lemma watched_same: "watched N v = written N v \<Longrightarrow> watched_image N v m = written_image N v m"
  by (simp add: watched_image_def written_image_def)

lemma payload_new_png [simp]: "payload (new_png x) = x"
  by (simp add: new_png_def)

section \<open>What a poll and a receipt do\<close>

lemma reads_watched:
  assumes "backend_at N v = Some b"
  shows "read_clipboard_png (reads_screen (env_at N v) m) b
    = Inr (case watched_image N v m of None \<Rightarrow> None | Some png \<Rightarrow> if png = [] then None else Some png)"
  using assms by (auto simp: watched_image_def watched_def read_clipboard_png_def reads_screen_def
      split: option.splits)

lemma poll_quiet: "backend_at N v = Some b \<Longrightarrow> quiet N v m \<Longrightarrow> poll (content_hash N) (env_at N v) b m = (m, [])"
  by (auto simp: poll_def quiet_def command_turn_def reads_watched split: option.splits)

lemma poll_new:
  "backend_at N v = Some b \<Longrightarrow> watched_image N v m = Some x \<Longrightarrow> \<not> quiet N v m \<Longrightarrow>
     poll (content_hash N) (env_at N v) b m = (m\<lparr>seen := Some (content_hash N x)\<rparr>, [new_png x])"
  by (auto simp: poll_def quiet_def command_turn_def reads_watched)

text \<open>A receipt: the writer keeps to its display, and only its own clipboard changes.\<close>

lemma receive_home:
  assumes home: "at_home N V v m" and u: "u \<in> set V" and box: "inbox m u = f # fs"
  defines "m' \<equiv> receive (env_at N v) (tools N v) u m"
  shows "at_home N V v m'" and "seen m' = seen m" and "inbox m' = (inbox m)(u := fs)"
    and "watched N v \<noteq> written N v \<Longrightarrow> watched_image N v m' = watched_image N v m"
    and "tool_works N v \<Longrightarrow> written_image N v m' = Some (payload f)"
proof -
  obtain d where d: "daemon_at N v = Some d"
    using home by (cases "daemon_at N v") (auto simp: at_home_def writer_at_def)
  let ?wr = "conn_writer m u" and ?env = "env_at N v" and ?d = "dm_display_str (rd_display d)"
  have wr: "display ?wr = Xvfb" "display_str ?wr = Some ?d"
    using home u by (auto simp: at_home_def writer_at_def d new_writer_def list_all_iff daemon_displays [OF d])
  obtain cmd where cmd: "write_command ?env Xvfb (Some ?d) = Some cmd" "command_screen ?env cmd = Some (XScreen ?d)"
    by (rule xvfb_write_command)
  obtain r wr' ps where w: "write_png ?env (tools N v) None (payload f) (?wr, children m) = (r, wr', ps)"
    "display wr' = Xvfb" "display_str wr' = Some ?d"
    "(tools N v cmd \<noteq> None \<and> (\<exists>e. r = Inl e))
      \<or> (tools N v cmd = None \<and> r = Inr () \<and> (\<exists>k hs n. ps = \<lparr>holders = (k, cmd, Some (payload f)) # hs, next_child = n\<rparr>))"
  proof (cases "tools N v cmd")
    case None
    from write_starts [where wr = ?wr and cmd = cmd and sp = "tools N v" and png = "payload f"
        and ps = "children m" and env = ?env, unfolded wr, OF cmd(1) None]
    show ?thesis by (rule that) (use None wr in simp_all)
  next
    case (Some e)
    from write_fails [where wr = ?wr and cmd = cmd and sp = "tools N v" and png = "payload f"
        and ps = "children m" and env = ?env, unfolded wr, OF cmd(1) Some] obtain er where
      "write_png ?env (tools N v) None (payload f) (?wr, children m)
        = (Inl er, ?wr\<lparr>current_child := None\<rparr>, (children m)\<lparr>holders := others ?wr (children m)\<rparr>)"
      by blast
    then show ?thesis by (rule that) (use Some wr in simp_all)
  qed
  have m': "m' = m\<lparr>inbox := (inbox m)(u := fs), conn_writer := (conn_writer m)(u := wr'), children := ps,
      clips := serve ?env r ps (clips m)\<rparr>"
    by (simp add: m'_def receive_def box w(1))
  have written: "written N v = Some (XScreen ?d)" by (rule screens(1) [OF d])
  have other: "serve ?env r ps (clips m) c = clips m c"
    if "watched N v \<noteq> written N v" "watched N v = Some c" for c
  proof -
    have "Option.bind (clips m c) snd = None" using home that by (auto simp: at_home_def)
    then have "still_served ps (clips m c) = clips m c"
      by (auto simp: still_served_def split: option.splits)
    moreover have "c \<noteq> XScreen ?d" using that written by auto
    ultimately show ?thesis using w(4) cmd(2) by (auto simp: serve_def)
  qed
  then show "watched N v \<noteq> written N v \<Longrightarrow> watched_image N v m' = watched_image N v m"
    by (cases "watched N v") (auto simp: watched_image_def shows_image_def m')
  show "seen m' = seen m" "inbox m' = (inbox m)(u := fs)" by (simp_all add: m')
  have "watched N v = written N v \<or> Option.bind (watched N v) (\<lambda>c. Option.bind (serve ?env r ps (clips m) c) snd)
      = Option.bind (watched N v) (\<lambda>c. Option.bind (clips m c) snd)"
  proof (cases "watched N v = written N v")
    case False
    with other [OF False] show ?thesis by (cases "watched N v") simp_all
  qed simp
  then show "at_home N V v m'"
    using home w(2,3)
    by (auto simp: at_home_def m' list_all_iff writer_at_def d new_writer_def daemon_displays [OF d])
  show "written_image N v m' = Some (payload f)" if "tool_works N v"
  proof -
    have "tools N v cmd = None"
      using that cmd(1) by (auto simp: tool_works_def writer_at_def d new_writer_def daemon_displays [OF d])
    then show ?thesis using w(4) cmd(2) by (auto simp: written_image_def written shows_image_def m' serve_def)
  qed
qed

section \<open>Events\<close>

text \<open>Whether an event does anything, and how many events of a run do.\<close>

fun effective :: "('n, 'h) network \<Rightarrow> 'n mesh_event \<Rightarrow> ('n \<Rightarrow> ('n, 'h) machine) \<Rightarrow> bool" where
  "effective N (Poll v) \<sigma> = (\<not> quiet N v (\<sigma> v))"
| "effective N (Receive v u) \<sigma> = (inbox (\<sigma> v) u \<noteq> [])"

fun busy_steps :: "('n, 'h) network \<Rightarrow> 'n mesh_event list \<Rightarrow> ('n \<Rightarrow> ('n, 'h) machine) \<Rightarrow> nat" where
  "busy_steps N [] \<sigma> = 0"
| "busy_steps N (e # es) \<sigma> = (if effective N e \<sigma> then 1 else 0) + busy_steps N es (mesh_step N e \<sigma>)"

text \<open>The events of a group of machines.\<close>

fun among :: "'n list \<Rightarrow> 'n mesh_event \<Rightarrow> bool" where
  "among V (Poll v) = (v \<in> set V)"
| "among V (Receive v u) = (v \<in> set V \<and> u \<in> set V)"

lemma push_nothing [simp]: "push v us [] \<sigma> = \<sigma>"
  by (auto simp: push_def)

lemma push_sel [simp]:
  "clips (push v us fs \<sigma> u) = clips (\<sigma> u)" "seen (push v us fs \<sigma> u) = seen (\<sigma> u)"
  "conn_writer (push v us fs \<sigma> u) = conn_writer (\<sigma> u)" "children (push v us fs \<sigma> u) = children (\<sigma> u)"
  "inbox (push v us fs \<sigma> u) w = inbox (\<sigma> u) w @ (if w = v \<and> u \<in> set us then fs else [])"
  by (simp_all add: push_def)

lemma push_keeps [simp]:
  "watched_image N w (push v us fs \<sigma> u) = watched_image N w (\<sigma> u)"
  "written_image N w (push v us fs \<sigma> u) = written_image N w (\<sigma> u)"
  "quiet N w (push v us fs \<sigma> u) = quiet N w (\<sigma> u)"
  "at_home N V w (push v us fs \<sigma> u) = at_home N V w (\<sigma> u)"
  by (simp_all add: watched_image_def written_image_def shows_image_def quiet_def at_home_def
      cong: option.case_cong)

lemma seen_keeps [simp]:
  "watched_image N w (m\<lparr>seen := h\<rparr>) = watched_image N w m"
  "written_image N w (m\<lparr>seen := h\<rparr>) = written_image N w m"
  "at_home N V w (m\<lparr>seen := h\<rparr>) = at_home N V w m"
  by (simp_all add: watched_image_def written_image_def shows_image_def at_home_def
      cong: option.case_cong)

lemma not_effective: "\<not> effective N e \<sigma> \<Longrightarrow> mesh_step N e \<sigma> = \<sigma>"
  by (cases e) (simp_all add: poll_quiet receive_def split: option.split)

text \<open>Nothing is to be sent and nothing under way: no event of the machines does anything.\<close>

definition at_rest :: "('n, 'h) network \<Rightarrow> 'n list \<Rightarrow> ('n \<Rightarrow> ('n, 'h) machine) \<Rightarrow> bool" where
  "at_rest N V \<sigma> \<longleftrightarrow> list_all (\<lambda>v. quiet N v (\<sigma> v) \<and> list_all (\<lambda>u. inbox (\<sigma> v) u = []) V) V"

lemma at_rest_iff: "at_rest N V \<sigma> \<longleftrightarrow> (\<forall>e. among V e \<longrightarrow> \<not> effective N e \<sigma>)"
proof -
  have "(\<forall>e. among V e \<longrightarrow> \<not> effective N e \<sigma>) \<longleftrightarrow>
      (\<forall>v \<in> set V. \<not> effective N (Poll v) \<sigma> \<and> (\<forall>u \<in> set V. \<not> effective N (Receive v u) \<sigma>))"
    by (metis among.simps mesh_event.exhaust)
  then show ?thesis by (simp add: at_rest_def list_all_iff)
qed

lemma poll_step:
  assumes "watched_image N v (\<sigma> v) = Some x" and "\<not> quiet N v (\<sigma> v)"
  shows "mesh_step N (Poll v) \<sigma>
    = push v (peers_of N v) [new_png x] (\<sigma>(v := (\<sigma> v)\<lparr>seen := Some (content_hash N x)\<rparr>))"
proof -
  obtain b where "backend_at N v = Some b"
    using assms(1) by (cases "backend_at N v") (auto simp: watched_image_def watched_def)
  with poll_new [OF this assms] show ?thesis by simp
qed

lemma receive_step:
  "at_home N V v (\<sigma> v) \<Longrightarrow> mesh_step N (Receive v u) \<sigma> = \<sigma>(v := receive (env_at N v) (tools N v) u (\<sigma> v))"
  by (auto simp: at_home_def writer_at_def split: option.splits)

section \<open>One image comes to rest\<close>

text \<open>
  While the image \<open>x\<close>, which is new on the machine \<open>s\<close>, spreads: only \<open>x\<close> is under way; a machine
  on whose watched clipboard it is not has nothing to send; and a machine whose watcher has sent it
  has its peers show it on the clipboard they write to, or receive it.
\<close>

definition spreading :: "('n, 'h) network \<Rightarrow> 'n list \<Rightarrow> 'n \<Rightarrow> bytes \<Rightarrow> ('n \<Rightarrow> ('n, 'h) machine) \<Rightarrow> bool" where
  "spreading N V s x \<sigma> \<longleftrightarrow> watched_image N s (\<sigma> s) = Some x \<and>
     list_all (\<lambda>v. at_home N V v (\<sigma> v) \<and> tool_works N v
       \<and> list_all (\<lambda>u. list_all (\<lambda>f. f = new_png x) (inbox (\<sigma> v) u)) V
       \<and> (watched_image N v (\<sigma> v) = Some x \<or> quiet N v (\<sigma> v))
       \<and> (seen (\<sigma> v) = Some (content_hash N x) \<longrightarrow> watched_image N v (\<sigma> v) = Some x
            \<and> list_all (\<lambda>u. written_image N u (\<sigma> u) = Some x \<or> inbox (\<sigma> u) v \<noteq> []) (peers_of N v))) V"

text \<open>The frames that are still to be received or sent, and the watchers that have not seen the image.\<close>

definition waiting_frames :: "'n list \<Rightarrow> ('n, 'h) machine \<Rightarrow> nat" where
  "waiting_frames V m = (\<Sum>u \<in> set V. length (inbox m u))"

definition work :: "('n, 'h) network \<Rightarrow> 'n list \<Rightarrow> bytes \<Rightarrow> ('n \<Rightarrow> ('n, 'h) machine) \<Rightarrow> nat" where
  "work N V x \<sigma> = (\<Sum>v \<in> set V. waiting_frames V (\<sigma> v))
     + (\<Sum>v \<in> set V. if seen (\<sigma> v) = Some (content_hash N x) then 0 else Suc (card (set (peers_of N v))))"

lemma sum_update:
  fixes f :: "'a \<Rightarrow> 'b \<Rightarrow> nat"
  assumes "v \<in> set V"
  shows "(\<Sum>u \<in> set V. f u ((\<sigma>(v := m)) u)) + f v (\<sigma> v) = (\<Sum>u \<in> set V. f u (\<sigma> u)) + f v m"
proof -
  have "(\<Sum>u \<in> set V - {v}. f u ((\<sigma>(v := m)) u)) = (\<Sum>u \<in> set V - {v}. f u (\<sigma> u))"
    by (rule sum.cong) auto
  then show ?thesis by (simp add: sum.remove [OF finite_set assms])
qed

lemma waiting_push:
  assumes "v \<in> set V"
  shows "waiting_frames V (push v us [f] \<sigma> u) = waiting_frames V (\<sigma> u) + (if u \<in> set us then 1 else 0)"
proof -
  have "waiting_frames V (push v us [f] \<sigma> u)
      = (\<Sum>w \<in> set V. length (inbox (\<sigma> u) w) + (if w = v \<and> u \<in> set us then 1 else 0))"
    unfolding waiting_frames_def by (rule sum.cong) auto
  also have "\<dots> = waiting_frames V (\<sigma> u) + (\<Sum>w \<in> set V. if w = v \<and> u \<in> set us then 1 else 0)"
    by (simp add: sum.distrib waiting_frames_def)
  also have "(\<Sum>w \<in> set V. if w = v \<and> u \<in> set us then 1 else 0 :: nat) = (if u \<in> set us then 1 else 0)"
    using assms by (cases "u \<in> set us") auto
  finally show ?thesis .
qed

lemma sum_push:
  assumes "v \<in> set V" and "set us \<subseteq> set V"
  shows "(\<Sum>u \<in> set V. waiting_frames V (push v us [f] \<sigma> u)) = (\<Sum>u \<in> set V. waiting_frames V (\<sigma> u)) + card (set us)"
proof -
  have "(\<Sum>u \<in> set V. if u \<in> set us then 1 else 0 :: nat) = card (set V \<inter> set us)"
    by (simp add: sum.If_cases)
  with assms show ?thesis by (simp add: waiting_push sum.distrib Int_absorb1)
qed

lemma poll_spreads:
  assumes inv: "spreading N V s x \<sigma>" and v: "v \<in> set V" and V: "set (peers_of N v) \<subseteq> set V"
    and e: "\<not> quiet N v (\<sigma> v)"
  shows "spreading N V s x (mesh_step N (Poll v) \<sigma>)
    \<and> Suc (work N V x (mesh_step N (Poll v) \<sigma>)) = work N V x \<sigma>"
proof -
  let ?h = "content_hash N x"
  define m where "m = (\<sigma> v)\<lparr>seen := Some ?h\<rparr>"
  from inv e v have img: "watched_image N v (\<sigma> v) = Some x" and home: "at_home N V v (\<sigma> v)"
    by (auto simp: spreading_def list_all_iff)
  with e have seen: "seen (\<sigma> v) \<noteq> Some ?h" by (simp add: quiet_def)
  have step: "mesh_step N (Poll v) \<sigma> = push v (peers_of N v) [new_png x] (\<sigma>(v := m))"
    unfolding m_def by (rule poll_step [of N v \<sigma> x, OF img e])
  have m: "watched_image N w m = watched_image N w (\<sigma> v)" "written_image N w m = written_image N w (\<sigma> v)"
    "at_home N V w m = at_home N V w (\<sigma> v)" "seen m = Some ?h" "inbox m = inbox (\<sigma> v)" for w
    by (simp_all add: m_def)
  have "spreading N V s x (push v (peers_of N v) [new_png x] (\<sigma>(v := m)))"
    using inv v img unfolding spreading_def list_all_iff
    by (auto simp: m split: if_splits)
  moreover have "Suc (work N V x (push v (peers_of N v) [new_png x] (\<sigma>(v := m)))) = work N V x \<sigma>"
    using sum_update [OF v, where f = "\<lambda>u m. waiting_frames V m" and m = m and \<sigma> = \<sigma>]
      sum_update [OF v, where f = "\<lambda>u k. if seen k = Some ?h then 0 else Suc (card (set (peers_of N u)))"
        and m = m and \<sigma> = \<sigma>] seen m
    unfolding work_def sum_push [OF v V] by (simp add: waiting_frames_def)
  ultimately show ?thesis by (simp only: step)
qed

lemma waiting_received:
  assumes "u \<in> set V" and "inbox m u = f # fs" and "inbox m' = (inbox m)(u := fs)"
  shows "Suc (waiting_frames V m') = waiting_frames V m"
  using sum_update [OF assms(1), where f = "\<lambda>_ fs. length fs" and m = fs and \<sigma> = "inbox m"] assms(2,3)
  by (simp add: waiting_frames_def)

lemma receive_spreads:
  assumes inv: "spreading N V s x \<sigma>" and v: "v \<in> set V" and u: "u \<in> set V" and e: "inbox (\<sigma> v) u \<noteq> []"
  shows "spreading N V s x (mesh_step N (Receive v u) \<sigma>)
    \<and> Suc (work N V x (mesh_step N (Receive v u) \<sigma>)) = work N V x \<sigma>"
proof -
  let ?h = "content_hash N x"
  obtain fs where fs: "inbox (\<sigma> v) u = new_png x # fs" "list_all (\<lambda>f. f = new_png x) fs"
    using inv v u e by (cases "inbox (\<sigma> v) u") (auto simp: spreading_def list_all_iff)
  from inv v have home: "at_home N V v (\<sigma> v)" "tool_works N v"
    by (auto simp: spreading_def list_all_iff)
  define m where "m = receive (env_at N v) (tools N v) u (\<sigma> v)"
  note m = receive_home [OF home(1) u fs(1), folded m_def]
  have out: "written_image N v m = Some x" using m(5) [OF home(2)] by simp
  have inn: "watched_image N v m = watched_image N v (\<sigma> v) \<or> watched_image N v m = Some x"
    using m(4) out watched_same [of N v m] by (cases "watched N v = written N v") auto
  have quiet: "watched_image N v m = Some x \<or> quiet N v m"
    if "watched_image N v (\<sigma> v) = Some x \<or> quiet N v (\<sigma> v)"
    using inn that m(2) by (auto simp: quiet_def split: option.splits)
  have "spreading N V s x (\<sigma>(v := m))"
    unfolding spreading_def list_all_iff
  proof (intro conjI ballI)
    show "watched_image N s ((\<sigma>(v := m)) s) = Some x"
      using inv inn by (auto simp: spreading_def)
    fix w assume w: "w \<in> set V"
    note old = inv [unfolded spreading_def list_all_iff, THEN conjunct2, rule_format, OF w]
    show "at_home N V w ((\<sigma>(v := m)) w)" "tool_works N w" using old m(1) by auto
    show "f = new_png x" if "k \<in> set V" "f \<in> set (inbox ((\<sigma>(v := m)) w) k)" for k f
      using old that fs(2) by (auto simp: m(3) list_all_iff split: if_splits)
    show "watched_image N w ((\<sigma>(v := m)) w) = Some x \<or> quiet N w ((\<sigma>(v := m)) w)"
      using old quiet by auto
    show "seen ((\<sigma>(v := m)) w) = Some ?h \<longrightarrow> watched_image N w ((\<sigma>(v := m)) w) = Some x
        \<and> (\<forall>k \<in> set (peers_of N w). written_image N k ((\<sigma>(v := m)) k) = Some x \<or> inbox ((\<sigma>(v := m)) k) w \<noteq> [])"
      using old inn out m(2) by auto
  qed
  moreover have "Suc (work N V x (\<sigma>(v := m))) = work N V x \<sigma>"
    using sum_update [OF v, where f = "\<lambda>u m. waiting_frames V m" and m = m and \<sigma> = \<sigma>]
      sum_update [OF v, where f = "\<lambda>u k. if seen k = Some ?h then 0 else Suc (card (set (peers_of N u)))"
        and m = m and \<sigma> = \<sigma>] waiting_received [OF u fs(1) m(3)] m(2)
    unfolding work_def by simp
  ultimately show ?thesis by (simp only: receive_step [of N V v \<sigma> u, OF home(1)] m_def)
qed

text \<open>Every event that does anything takes one off the work that is left.\<close>

lemma mesh_step_spreads:
  assumes "spreading N V s x \<sigma>" and "list_all (\<lambda>v. set (peers_of N v) \<subseteq> set V) V"
    and "among V e"
  shows "spreading N V s x (mesh_step N e \<sigma>)
    \<and> (if effective N e \<sigma> then 1 else 0) + work N V x (mesh_step N e \<sigma>) = work N V x \<sigma>"
proof (cases "effective N e \<sigma>")
  case True
  with assms show ?thesis
    using poll_spreads [of N V s x \<sigma>] receive_spreads [of N V s x \<sigma>]
    by (cases e) (auto simp: list_all_iff simp del: mesh_step.simps)
next
  case False
  with assms(1) not_effective [OF False] show ?thesis by simp
qed

lemma mesh_run_spreads:
  assumes "spreading N V s x \<sigma>" and "list_all (\<lambda>v. set (peers_of N v) \<subseteq> set V) V"
    and "list_all (among V) es"
  shows "spreading N V s x (fold (mesh_step N) es \<sigma>)
    \<and> busy_steps N es \<sigma> + work N V x (fold (mesh_step N) es \<sigma>) = work N V x \<sigma>"
  using assms(1,3)
proof (induction es arbitrary: \<sigma>)
  case (Cons e es)
  with mesh_step_spreads [OF Cons.prems(1) assms(2), of e] show ?case by (auto simp: add.assoc)
qed simp

text \<open>So the mesh can come to rest from everywhere.\<close>

lemma can_rest:
  assumes "spreading N V s x \<sigma>" and "list_all (\<lambda>v. set (peers_of N v) \<subseteq> set V) V"
  shows "\<exists>es. list_all (among V) es \<and> length es \<le> work N V x \<sigma>
    \<and> at_rest N V (fold (mesh_step N) es \<sigma>)"
  using assms(1)
proof (induction "work N V x \<sigma>" arbitrary: \<sigma> rule: less_induct)
  case less
  show ?case
  proof (cases "at_rest N V \<sigma>")
    case False
    then obtain e where e: "among V e" "effective N e \<sigma>" by (auto simp: at_rest_iff)
    from mesh_step_spreads [OF less.prems assms(2) e(1)] e(2)
    have *: "spreading N V s x (mesh_step N e \<sigma>)" "Suc (work N V x (mesh_step N e \<sigma>)) = work N V x \<sigma>"
      by simp_all
    then obtain es where "list_all (among V) es"
      "length es \<le> work N V x (mesh_step N e \<sigma>)" "at_rest N V (fold (mesh_step N) es (mesh_step N e \<sigma>))"
      using less.hyps [of "mesh_step N e \<sigma>"] by auto
    with e(1) * show ?thesis by (intro exI [of _ "e # es"]) simp
  qed (auto intro: exI [of _ "[]"])
qed

text \<open>
  The connections on which the image is passed on: those of the machine it was copied on, and those
  of the machines without a desktop.
\<close>

definition passes_on :: "('n, 'h) network \<Rightarrow> 'n \<Rightarrow> ('n \<times> 'n) set" where
  "passes_on N s = {(u, v). v \<in> set (peers_of N u) \<and> (u = s \<or> headless N u)}"

lemma rest_sent:
  assumes "spreading N V s x \<sigma>" and "at_rest N V \<sigma>" and "x \<noteq> []"
    and "list_all (\<lambda>v. set (peers_of N v) \<subseteq> set V) V"
    and "u \<in> set V" and "watched_image N u (\<sigma> u) = Some x" and "v \<in> set (peers_of N u)"
  shows "v \<in> set V \<and> written_image N v (\<sigma> v) = Some x"
proof -
  from assms(2,5) have "quiet N u (\<sigma> u)" by (simp add: at_rest_def list_all_iff)
  with assms(3,6) have "seen (\<sigma> u) = Some (content_hash N x)" by (simp add: quiet_def)
  with assms(1,5,7) have "written_image N v (\<sigma> v) = Some x \<or> inbox (\<sigma> v) u \<noteq> []"
    by (auto simp: spreading_def list_all_iff)
  moreover have "v \<in> set V" using assms(4,5,7) by (auto simp: list_all_iff)
  ultimately show ?thesis using assms(2,5) by (auto simp: at_rest_def list_all_iff)
qed

lemma rest_flooded:
  assumes inv: "spreading N V s x \<sigma>" and rest: "at_rest N V \<sigma>" and "x \<noteq> []" and "s \<in> set V"
    and V: "list_all (\<lambda>v. set (peers_of N v) \<subseteq> set V) V" and "(s, v) \<in> (passes_on N s)\<^sup>+"
  shows "v \<in> set V \<and> written_image N v (\<sigma> v) = Some x"
proof -
  note sent = rest_sent [OF inv rest assms(3) V]
  have src: "watched_image N s (\<sigma> s) = Some x" using inv by (simp add: spreading_def)
  show ?thesis
    using assms(6)
  proof (induction rule: trancl_induct)
    case (base v)
    then show ?case using sent [OF assms(4) src] by (simp add: passes_on_def)
  next
    case (step u v)
    have "watched_image N u (\<sigma> u) = Some x"
    proof (cases "u = s")
      case False
      with step.hyps(2) have "headless N u" by (simp add: passes_on_def)
      moreover obtain d where "daemon_at N u = Some d"
        using inv step.IH by (cases "daemon_at N u") (auto simp: spreading_def list_all_iff at_home_def writer_at_def)
      ultimately show ?thesis using screens(3) watched_same step.IH by metis
    qed (use src in simp)
    with sent step show ?case by (auto simp: passes_on_def)
  qed
qed

text \<open>
  The start: \<open>x\<close> is on the watched clipboard of \<open>s\<close> and is new to every watcher; no other machine has
  something to send.
\<close>

definition new_image :: "('n, 'h) network \<Rightarrow> 'n list \<Rightarrow> 'n \<Rightarrow> bytes \<Rightarrow> ('n \<Rightarrow> ('n, 'h) machine) \<Rightarrow> bool" where
  "new_image N V s x \<sigma> \<longleftrightarrow> watched_image N s (\<sigma> s) = Some x \<and>
     list_all (\<lambda>v. at_home N V v (\<sigma> v) \<and> tool_works N v \<and> list_all (\<lambda>u. inbox (\<sigma> v) u = []) V
       \<and> seen (\<sigma> v) \<noteq> Some (content_hash N x) \<and> (v = s \<or> quiet N v (\<sigma> v))) V"

lemma new_image_spreading:
  assumes "new_image N V s x \<sigma>"
  shows "spreading N V s x \<sigma>"
    and "work N V x \<sigma> = (\<Sum>v \<in> set V. Suc (card (set (peers_of N v))))"
proof -
  show "spreading N V s x \<sigma>"
    using assms by (auto simp: new_image_def spreading_def list_all_iff)
  have "(\<Sum>v \<in> set V. waiting_frames V (\<sigma> v)) = 0"
    using assms by (simp add: new_image_def list_all_iff waiting_frames_def)
  moreover have "(\<Sum>v \<in> set V. if seen (\<sigma> v) = Some (content_hash N x) then 0 else Suc (card (set (peers_of N v))))
      = (\<Sum>v \<in> set V. Suc (card (set (peers_of N v))))"
    using assms by (intro sum.cong) (auto simp: new_image_def list_all_iff)
  ultimately show "work N V x \<sigma> = (\<Sum>v \<in> set V. Suc (card (set (peers_of N v))))"
    by (simp add: work_def)
qed

text \<open>
  C6. A copied image floods the mesh as far as machines without a desktop pass it on, and comes to
  rest, whatever the connections and the order in which the machines poll and receive: at most one
  poll of each machine and one receipt for each connection do anything; from every state on the way
  the mesh can come to rest; and once it is at rest, no event changes anything, and every machine
  to which a chain of connections leads from the one where the image was copied, all machines in
  between being without a desktop, shows it on the clipboard of its Xvfb.
\<close>
theorem image_floods_mesh:
  assumes "new_image N V s x \<sigma>" and "x \<noteq> []" and "s \<in> set V"
    and "list_all (\<lambda>v. set (peers_of N v) \<subseteq> set V) V"
    and "list_all (among V) es" and "\<sigma>' = fold (mesh_step N) es \<sigma>"
  shows "busy_steps N es \<sigma> \<le> (\<Sum>v \<in> set V. Suc (card (set (peers_of N v))))
    \<and> (\<exists>fs. list_all (among V) fs \<and> at_rest N V (fold (mesh_step N) fs \<sigma>'))
    \<and> (at_rest N V \<sigma>' \<longrightarrow>
          (\<forall>e. among V e \<longrightarrow> mesh_step N e \<sigma>' = \<sigma>')
          \<and> (\<forall>v. (s, v) \<in> (passes_on N s)\<^sup>+ \<longrightarrow> written_image N v (\<sigma>' v) = Some x))"
proof (intro conjI impI allI)
  note start = new_image_spreading [OF assms(1)]
  note run = mesh_run_spreads [OF start(1) assms(4,5), folded assms(6)]
  show "busy_steps N es \<sigma> \<le> (\<Sum>v \<in> set V. Suc (card (set (peers_of N v))))"
    using run start(2) by linarith
  show "\<exists>fs. list_all (among V) fs \<and> at_rest N V (fold (mesh_step N) fs \<sigma>')"
    using can_rest [OF _ assms(4)] run by blast
  show "mesh_step N e \<sigma>' = \<sigma>'" if "at_rest N V \<sigma>'" "among V e" for e
    using that not_effective by (auto simp: at_rest_iff)
  show "written_image N v (\<sigma>' v) = Some x" if "at_rest N V \<sigma>'" "(s, v) \<in> (passes_on N s)\<^sup>+" for v
    using rest_flooded [OF _ that(1) assms(2,3,4) that(2)] run by blast
qed

text \<open>
  Three machines without a desktop in a ring; their Xvfb takes display 7.
\<close>

definition headless_network :: "('n \<Rightarrow> 'n list) \<Rightarrow> ('n, bytes) network" where
  "headless_network ps = \<lparr>content_hash = id, start_of = \<lambda>_. headless_start,
     host_of = \<lambda>_. \<lparr>host_files = Map.empty, host_env = [''HOME'' \<mapsto> ''/u'']\<rparr>, tools = \<lambda>_ c. None,
     peers_of = ps\<rparr>"

definition display_7 :: string where
  "display_7 = CHR '':'' # show_nat 7"

definition idle_machine :: "bytes option \<Rightarrow> ('n, bytes) machine" where
  "idle_machine img = \<lparr>clips = (\<lambda>c. if c = XScreen display_7 then map_option (\<lambda>x. (x, None)) img else None),
     seen = None, inbox = \<lambda>_. [], conn_writer = \<lambda>_. new_writer Xvfb (Some display_7),
     children = no_processes\<rparr>"

lemma headless_network_sel [simp]:
  "content_hash (headless_network p) = id" "peers_of (headless_network p) = p"
  "tools (headless_network p) = (\<lambda>_ c. None)"
  by (simp_all add: headless_network_def)

lemma headless_daemon:
  obtains d where "daemon_at (headless_network p) v = Some d" "dm_display_str (rd_display d) = display_7"
  using headless_starts by (auto simp: headless_network_def daemon_at_def display_7_def)

lemma headless_machine:
  fixes p :: "'n \<Rightarrow> 'n list"
  shows "headless (headless_network p) v"
    and "written (headless_network p) v = Some (XScreen display_7)"
    and "watched (headless_network p) v = Some (XScreen display_7)"
    and "writer_at (headless_network p) v = Some (new_writer Xvfb (Some display_7))"
    and "tool_works (headless_network p) v"
proof -
  obtain d where d: "daemon_at (headless_network p) v = Some d" "dm_display_str (rd_display d) = display_7"
    by (rule headless_daemon)
  show h: "headless (headless_network p) v" by (simp add: headless_def headless_network_def)
  show w: "written (headless_network p) v = Some (XScreen display_7)" using screens(1) [OF d(1)] d(2) by simp
  show "watched (headless_network p) v = Some (XScreen display_7)" using screens(3) [OF d(1) h] w by simp
  show writer: "writer_at (headless_network p) v = Some (new_writer Xvfb (Some display_7))"
    using daemon_displays(1) [OF d(1)] d by (simp add: writer_at_def)
  show "tool_works (headless_network p) v"
    by (auto simp: tool_works_def writer new_writer_def write_command_def Let_def)
qed

lemma idle_home [simp]:
  "at_home (headless_network p) V v (idle_machine img)"
  "watched_image (headless_network p) v (idle_machine img) = img"
  "inbox (idle_machine img) u = []" "seen (idle_machine img) = None"
  by (cases img; simp add: at_home_def headless_machine idle_machine_def list_all_iff watched_image_def
      shows_image_def comp_def)+

theorem image_floods_mesh_witness:
  "\<exists>es. at_rest (headless_network (\<lambda>v :: nat. [(v + 1) mod 3])) [0, 1, 2]
      (fold (mesh_step (headless_network (\<lambda>v. [(v + 1) mod 3]))) es ((\<lambda>_. idle_machine None)(0 := idle_machine (Some [7]))))
    \<and> written_image (headless_network (\<lambda>v. [(v + 1) mod 3])) 2
      (fold (mesh_step (headless_network (\<lambda>v. [(v + 1) mod 3]))) es ((\<lambda>_. idle_machine None)(0 := idle_machine (Some [7]))) 2)
      = Some [7]"
proof -
  let ?N = "headless_network (\<lambda>v :: nat. [(v + 1) mod 3])"
  let ?\<sigma> = "(\<lambda>_. idle_machine None)(0 := idle_machine (Some [7]))"
  have new: "new_image ?N [0, 1, 2] 0 [7] ?\<sigma>"
    by (simp add: new_image_def quiet_def headless_machine(5))
  have closed: "list_all (\<lambda>v. set (peers_of ?N v) \<subseteq> set [0, 1, 2]) [0, 1, 2]"
    by simp
  have path: "(0, 2) \<in> (passes_on ?N 0)\<^sup>+"
    by (rule trancl_into_trancl [where b = 1], rule r_into_trancl) (simp_all add: passes_on_def headless_machine(1))
  note floods = image_floods_mesh [OF new _ _ closed]
  obtain es where es: "list_all (among [0, 1, 2]) es" "at_rest ?N [0, 1, 2] (fold (mesh_step ?N) es ?\<sigma>)"
    using floods [of "[]" ?\<sigma>] by auto
  with floods [OF _ _ es(1) refl] path show ?thesis by auto
qed

section \<open>Two images do not\<close>






section \<open>A desktop does not pass on\<close>

lemma desktop_step:
  assumes "watched N v \<noteq> written N v" and "at_home N V v (\<sigma> v)" and "quiet N v (\<sigma> v)" and "among V e"
  shows "at_home N V v (mesh_step N e \<sigma> v) \<and> quiet N v (mesh_step N e \<sigma> v)
    \<and> watched_image N v (mesh_step N e \<sigma> v) = watched_image N v (\<sigma> v)
    \<and> suffix (inbox (mesh_step N e \<sigma> u) v) (inbox (\<sigma> u) v)"
proof (cases e)
  case (Poll w)
  show ?thesis
  proof (cases "w = v")
    case True
    with not_effective [of N e \<sigma>] Poll assms(2,3) show ?thesis by simp
  next
    case False
    then show ?thesis
      using assms(2,3) by (auto simp: Poll poll_def Let_def split: option.split prod.split)
  qed
next
  case (Receive w k)
  then have k: "k \<in> set V" using assms(4) by simp
  have suffix: "suffix (inbox (receive env sp k m) v) (inbox m v)" for env sp and m :: "('a, 'b) machine"
    by (auto simp: receive_def suffix_def Let_def split: list.splits prod.splits)
  show ?thesis
  proof (cases "w = v \<and> inbox (\<sigma> v) k \<noteq> []")
    case True
    then obtain f fs where box: "inbox (\<sigma> v) k = f # fs" by (cases "inbox (\<sigma> v) k") auto
    note got = receive_home [OF assms(2) k box]
    have "mesh_step N e \<sigma> = \<sigma>(v := receive (env_at N v) (tools N v) k (\<sigma> v))"
      using Receive True receive_step [of N V v \<sigma> k] assms(2) by simp
    then show ?thesis
      using got(1,2) got(4) [OF assms(1)] assms(3) suffix by (simp add: quiet_def split: option.splits)
  next
    case False
    then show ?thesis
      using assms(2,3) suffix not_effective [of N e \<sigma>]
      by (cases "w = v") (auto simp: Receive simp del: mesh_step.simps(2), auto split: option.splits)
  qed
qed

lemma desktop_run:
  assumes "watched N v \<noteq> written N v" and "at_home N V v (\<sigma> v)" and "quiet N v (\<sigma> v)"
    and "list_all (among V) es"
  shows "watched_image N v (fold (mesh_step N) es \<sigma> v) = watched_image N v (\<sigma> v)
    \<and> suffix (inbox (fold (mesh_step N) es \<sigma> u) v) (inbox (\<sigma> u) v)"
  using assms(2-4)
proof (induction es arbitrary: \<sigma>)
  case (Cons e es)
  then have e: "among V e" "list_all (among V) es" by simp_all
  note step = desktop_step [of N v V \<sigma> e u, OF assms(1) Cons.prems(1,2) e(1)]
  then have "suffix (inbox (fold (mesh_step N) es (mesh_step N e \<sigma>) u) v) (inbox (mesh_step N e \<sigma> u) v)"
    using Cons.IH e(2) by blast
  with step have "suffix (inbox (fold (mesh_step N) es (mesh_step N e \<sigma>) u) v) (inbox (\<sigma> u) v)"
    by (meson suffix_order.trans)
  then show ?case using Cons.IH [of "mesh_step N e \<sigma>"] step e(2) by simp
qed simp

text \<open>
  C8. A machine with a desktop does not pass on what it receives: if its watcher has nothing new to
  send, then whatever the machines of the mesh poll and receive, its own receipts included, no frame is
  ever put on the way from it, and the desktop's clipboard stays as it is.
\<close>
theorem desktop_does_not_relay:
  assumes "daemon_at N v = Some d" and "\<not> headless N v"
    and "host_env (host_of N v) ''DISPLAY'' \<noteq> Some (dm_display_str (rd_display d))"
    and "at_home N V v (\<sigma> v)" and "quiet N v (\<sigma> v)" and "list_all (among V) es"
  shows "watched_image N v (fold (mesh_step N) es \<sigma> v) = watched_image N v (\<sigma> v)
    \<and> suffix (inbox (fold (mesh_step N) es \<sigma> u) v) (inbox (\<sigma> u) v)"
proof (rule desktop_run [of N v V \<sigma> es u, OF _ assms(4-6)])
  show "watched N v \<noteq> written N v"
    using screens(1,2) [OF assms(1)] assms(2,3) nonempty_cases [of "host_env (host_of N v) ''DISPLAY''"]
      nonempty_cases [of "host_env (host_of N v) ''WAYLAND_DISPLAY''"]
    by (auto simp: headless_def split: option.splits)
qed

text \<open>
  Two machines, of which the second has a desktop on display 0; an image is on the way to it.
\<close>

definition desktop_network :: "(bool, bytes) network" where
  "desktop_network = (headless_network (\<lambda>v. [\<not> v]))\<lparr>host_of := \<lambda>v. \<lparr>host_files = Map.empty,
     host_env = (if v then [''HOME'' \<mapsto> ''/u'', ''DISPLAY'' \<mapsto> '':0''] else [''HOME'' \<mapsto> ''/u''])\<rparr>\<rparr>"

lemma desktop_starts:
  obtains d where "daemon_at desktop_network True = Some d" "dm_display_str (rd_display d) = display_7"
proof -
  have "spawn_xvfb (Started (Some (show_nat 7 @ [CHR 0x0A]))) = Inr display_7"
    by (simp add: spawn_xvfb_def read_displayfd_def trim_line show_nat_printable parse_show_nat display_7_def)
  then have "\<exists>d. daemon_at desktop_network True = Some d \<and> dm_display_str (rd_display d) = display_7"
    by (simp add: desktop_network_def headless_network_def daemon_at_def
      start_daemon_def headless_start_def detect_and_init_def init_xvfb_def publish_display_def Let_def)
  then show ?thesis using that by blast
qed

theorem desktop_does_not_relay_witness:
  "inbox (fold (mesh_step desktop_network) [Receive True False, Poll True]
      (\<lambda>v. (idle_machine None)\<lparr>inbox := \<lambda>u. if v \<and> \<not> u then [new_png [7]] else []\<rparr>) False) True = []"
proof -
  let ?\<sigma> = "\<lambda>v :: bool. (idle_machine None)\<lparr>inbox := \<lambda>u. if v \<and> \<not> u then [new_png [7]] else []\<rparr>"
  obtain d where d: "daemon_at desktop_network True = Some d" "dm_display_str (rd_display d) = display_7"
    by (rule desktop_starts)
  have "show_nat 7 \<noteq> ''0''" by code_simp
  then have ne: "host_env (host_of desktop_network True) ''DISPLAY'' \<noteq> Some (dm_display_str (rd_display d))"
    "\<not> headless desktop_network True"
    by (simp_all add: d(2) display_7_def desktop_network_def headless_def)
  have home: "at_home desktop_network [False, True] True (?\<sigma> True)" "quiet desktop_network True (?\<sigma> True)"
    using daemon_displays(1) [OF d(1)] d
    by (cases "watched desktop_network True";
      simp add: at_home_def writer_at_def idle_machine_def quiet_def watched_image_def shows_image_def)+
  have es: "list_all (among [False, True]) [Receive True False, Poll True]" by simp
  from desktop_does_not_relay [where N = desktop_network and v = True and \<sigma> = ?\<sigma> and u = False,
      OF d(1) ne(2,1) home es] show ?thesis by simp
qed

end
