(* ===== verification/Endpoints.thy ===== *)
theory Endpoints
  imports Relay Utf8
begin

text \<open>
  The stand-alone ends of \<^verbatim>\<open>src/src/transport.rs\<close>: \<open>server\<close>, which serves one connection after
  another, and \<open>client\<close>, which reconnects with an exponential backoff. Both run over the list of
  what the network does: the connections accepted, or the attempts to connect. A list that is used
  up is a process that waits.
\<close>

section \<open>The server\<close>

text \<open>\<open>tailscale\<close> is the outcome of running \<^verbatim>\<open>tailscale ip -4\<close>.\<close>

definition server_address :: "string \<Rightarrow> (io_error + string) \<Rightarrow> TransportError + string" where
  "server_address bind_addr tailscale =
     (if bind_addr = ''auto'' then
        (case tailscale of Inl e \<Rightarrow> Inl (Io e) | Inr out \<Rightarrow> Inr (trim (from_utf8_lossy out)))
      else Inr bind_addr)"

text \<open>An accepted connection, or an error of \<open>accept\<close> or of \<open>apply_keepalive\<close>.\<close>

datatype 'r accepted = AcceptError io_error | KeepaliveError io_error | Stream 'r

text \<open>
  The accept loop: what it has returned, if it has, and the writer each connection ended with. A
  connection that never ends would be the value \<open>None\<close>.
\<close>

fun server_loop ::
  "(nat \<Rightarrow> 'r \<Rightarrow> (io_error + bytes) \<times> 'r) \<Rightarrow> (bytes \<Rightarrow> ClipboardWriter \<times> processes \<Rightarrow> ClipboardWriter \<times> processes)
     \<Rightarrow> DisplayEnvironment \<Rightarrow> 'r accepted list
     \<Rightarrow> (TransportError option \<times> (ClipboardWriter \<times> processes) list) option" where
  "server_loop read_exact put d [] = Some (None, [])"
| "server_loop read_exact put d (AcceptError e # cs) = Some (Some (Io e), [])"
| "server_loop read_exact put d (KeepaliveError e # cs) = Some (Some (Io e), [])"
| "server_loop read_exact put d (Stream r # cs) =
     (case conn_loop read_exact put r (new_writer d None, no_processes) of
        None \<Rightarrow> None
      | Some (_, w) \<Rightarrow>
          map_option (\<lambda>(e, ws). (e, w # ws)) (server_loop read_exact put d cs))"

definition server ::
  "(nat \<Rightarrow> 'r \<Rightarrow> (io_error + bytes) \<times> 'r) \<Rightarrow> (bytes \<Rightarrow> ClipboardWriter \<times> processes \<Rightarrow> ClipboardWriter \<times> processes)
     \<Rightarrow> string \<Rightarrow> (io_error + string) \<Rightarrow> (string \<Rightarrow> io_error option) \<Rightarrow> DisplayEnvironment
     \<Rightarrow> 'r accepted list \<Rightarrow> (TransportError option \<times> (ClipboardWriter \<times> processes) list) option" where
  "server read_exact put bind_addr tailscale bind_error d cs =
     (case server_address bind_addr tailscale of
        Inl e \<Rightarrow> Some (Some e, [])
      | Inr resolved \<Rightarrow>
          (case bind_error resolved of
             Some e \<Rightarrow> Some (Some (Io e), [])
           | None \<Rightarrow> server_loop read_exact put d cs))"

section \<open>The client\<close>

text \<open>
  One connection: the frames still to come on the channel are sent until the channel is closed,
  which ends the client, or a frame cannot be sent, which is dropped.
\<close>

fun client_conn ::
  "(bytes \<Rightarrow> 'w \<Rightarrow> write_outcome \<times> 'w) \<Rightarrow> 'w \<Rightarrow> Frame list \<Rightarrow> 'w \<times> Frame list option" where
  "client_conn write_all w [] = (w, None)"
| "client_conn write_all w (f # q) =
     (case send_frame write_all w f of
        (Inr _, w') \<Rightarrow> client_conn write_all w' q
      | (Inl e, w') \<Rightarrow> (w', Some q))"

text \<open>
  The reconnecting loop, with the backoff in seconds without its jitter, which adds up to a quarter.
  The result is whether the client has returned, the sockets it used, the backoffs it slept for and
  the frames it has not taken from the channel.
\<close>

fun client_loop ::
  "(bytes \<Rightarrow> 'w \<Rightarrow> write_outcome \<times> 'w) \<Rightarrow> nat \<Rightarrow> 'w option list \<Rightarrow> Frame list
     \<Rightarrow> bool \<times> 'w list \<times> nat list \<times> Frame list" where
  "client_loop write_all backoff [] q = (False, [], [], q)"
| "client_loop write_all backoff (None # cs) q =
     (let (done, ws, sleeps, q') = client_loop write_all (min (backoff * 2) 30) cs q
      in (done, ws, backoff # sleeps, q'))"
| "client_loop write_all backoff (Some w # cs) q =
     (case client_conn write_all w q of
        (w', None) \<Rightarrow> (True, [w'], [], [])
      | (w', Some q1) \<Rightarrow>
          let (done, ws, sleeps, q') = client_loop write_all (min (1 * 2) 30) cs q1
          in (done, w' # ws, 1 # sleeps, q'))"

definition client ::
  "(bytes \<Rightarrow> 'w \<Rightarrow> write_outcome \<times> 'w) \<Rightarrow> 'w option list \<Rightarrow> Frame list
     \<Rightarrow> bool \<times> 'w list \<times> nat list \<times> Frame list" where
  "client write_all cs q = client_loop write_all 1 cs q"

section \<open>Properties\<close>

lemma backoff_bounded:
  "1 \<le> backoff \<Longrightarrow> backoff \<le> 30 \<Longrightarrow>
   \<forall>s \<in> set (fst (snd (snd (client_loop write_all backoff cs q)))). 1 \<le> s \<and> s \<le> 30"
proof (induction write_all backoff cs q rule: client_loop.induct)
  case (2 write_all backoff cs q)
  then have "1 \<le> min (backoff * 2) 30 \<and> min (backoff * 2) 30 \<le> 30" by simp
  with 2 show ?case by (auto split: prod.splits)
next
  case (3 write_all backoff w cs q)
  then show ?case by (auto split: prod.splits option.splits)
qed simp

lemma backoff_doubles:
  "fst (snd (snd (client_loop write_all (min (2 ^ k) 30) (replicate n None) q)))
     = map (\<lambda>i. min (2 ^ i) 30) [k ..< k + n]"
proof (induction n arbitrary: k)
  case (Suc n)
  have "min (min (2 ^ k) 30 * 2) 30 = min (2 ^ Suc k) (30 :: nat)" by simp
  moreover have "[k ..< k + Suc n] = k # [Suc k ..< Suc k + n]" by (simp add: upt_conv_Cons)
  ultimately show ?case using Suc [of "Suc k"] by (auto simp del: upt_Suc split: prod.splits)
qed simp

text \<open>
  The client never waits longer than thirty seconds (plus jitter) before the next attempt, and
  while the server stays unreachable the waits double: 1, 2, 4, 8, 16 and then 30 seconds.
\<close>
theorem client_backoff:
  "list_all (\<lambda>s. 1 \<le> s \<and> s \<le> 30) (fst (snd (snd (client write_all cs q))))
   \<and> fst (snd (snd (client write_all (replicate n None) q))) = map (\<lambda>i. min (2 ^ i) 30) [0 ..< n]"
  using backoff_bounded [of 1 write_all cs q] backoff_doubles [of write_all 0 n q]
  by (simp add: client_def list_all_iff)

text \<open>Sockets that keep what is written to them, up to a number of writes.\<close>

definition log_write :: "bytes \<Rightarrow> nat \<times> bytes \<Rightarrow> write_outcome \<times> (nat \<times> bytes)" where
  "log_write bs = (\<lambda>(left, got). if left = 0 then (WriteFailed (OtherIo 32), 0, got)
     else (Written, left - 1, got @ bs))"

lemma client_conn_log:
  assumes "\<forall>f \<in> set q. to_bytes f = Inr (enc f)"
  shows "client_conn log_write (n, got) q =
    (if n < length q then ((0, got @ concat (map enc (take n q))), Some (drop (Suc n) q))
     else ((n - length q, got @ concat (map enc q)), None))"
  using assms
proof (induction q arbitrary: n got)
  case (Cons f q)
  then show ?case
    by (cases n) (auto simp: send_frame_def log_write_def)
qed simp

text \<open>
  A frame whose transmission fails is lost: over a connection that breaks after \<open>n\<close> frames and a
  second one that holds, the server receives the first \<open>n\<close> frames and those after the next one.
\<close>
theorem client_loses_frame_in_flight:
  assumes "\<forall>f \<in> set q. to_bytes f = Inr (enc f)" and "n < length q"
  shows "client log_write [Some (n, []), Some (length q, [])] q =
    (True, [(0, concat (map enc (take n q))), (Suc n, concat (map enc (drop (Suc n) q)))], [1], [])"
proof -
  have "\<forall>f \<in> set (drop (Suc n) q). to_bytes f = Inr (enc f)"
    using assms(1) by (auto dest: in_set_dropD)
  from client_conn_log [OF this, of "length q" "[]"] assms(2)
  have second: "client_conn log_write (length q, []) (drop (Suc n) q)
      = ((Suc n, concat (map enc (drop (Suc n) q))), None)"
    by simp
  from client_conn_log [OF assms(1), of n "[]"] assms(2)
  have "client_conn log_write (n, []) q = ((0, concat (map enc (take n q))), Some (drop (Suc n) q))"
    by simp
  then show ?thesis by (simp add: client_def second)
qed

end
