(* ===== verification/Forward.thy ===== *)
theory Forward
  imports Relay Daemon
begin

text \<open>
  The \<open>select!\<close> loop of a connection task in \<open>start_peer_connection\<close> (\<^verbatim>\<open>src/src/daemon.rs\<close>): it
  sends the frames of the broadcast channel until something ends it. Which branch is taken, and
  with which result, is a list of outcomes, one for each turn of the loop; the broadcast channel,
  which drops frames for a receiver that lags, shows in the outcomes only; \<open>Bus\<close> says which outcomes it
  gives.
\<close>

section \<open>The loop\<close>

datatype select_outcome =
    BusFrame Frame          \<comment> \<open>\<open>clip_rx.recv()\<close> returned a frame\<close>
  | BusLagged nat           \<comment> \<open>\<open>RecvError::Lagged\<close>, so many frames are gone\<close>
  | BusGone                 \<comment> \<open>\<open>RecvError::Closed\<close>\<close>
  | CloseReceived           \<comment> \<open>\<open>close_rx.recv()\<close> returned\<close>
  | RemoteRead "io_error + nat"  \<comment> \<open>a read of at most one byte from the remote\<close>

text \<open>The socket after the outcomes, and why the loop has ended, if it has.\<close>

fun forward_loop ::
  "(bytes \<Rightarrow> 'w \<Rightarrow> write_outcome \<times> 'w) \<Rightarrow> 'w \<Rightarrow> select_outcome list \<Rightarrow> 'w \<times> conn_end option" where
  "forward_loop write_all w [] = (w, None)"
| "forward_loop write_all w (BusFrame f # os) =
     (case send_frame write_all w f of
        (Inl e, w') \<Rightarrow> (w', Some SendFailed)
      | (Inr _, w') \<Rightarrow> forward_loop write_all w' os)"
| "forward_loop write_all w (BusLagged n # os) = forward_loop write_all w os"
| "forward_loop write_all w (BusGone # os) = (w, Some BusClosed)"
| "forward_loop write_all w (CloseReceived # os) = (w, Some CloseSignal)"
| "forward_loop write_all w (RemoteRead r # os) =
     (case r of
        Inl e \<Rightarrow> (w, Some ReadError)
      | Inr n \<Rightarrow> if n = 0 then (w, Some RemoteEof) else forward_loop write_all w os)"

text \<open>A socket that never fails keeps what is written to it.\<close>

definition keep_write :: "bytes \<Rightarrow> bytes \<Rightarrow> write_outcome \<times> bytes" where
  "keep_write bs got = (Written, got @ bs)"

end
