(* ===== verification/Bus.thy ===== *)
theory Bus
  imports Forward "HOL-Library.Sublist"
begin

text \<open>
  The clipboard bus that \<open>PeerRegistry::new\<close> creates (\<^verbatim>\<open>src/src/peer.rs\<close>) and \<open>run_daemon\<close> feeds
  (\<^verbatim>\<open>src/src/daemon.rs\<close>): tokio's \<open>broadcast\<close> channel, whose documented behaviour is the locale
  \<open>broadcast_bus\<close>, and the socket of a connection, the locale \<open>byte_sink\<close>. The lemmas follow one
  receiver and one socket through any list of outcomes; the theory \<open>Fanout\<close> puts them into the
  running daemon.
\<close>

section \<open>The broadcast channel\<close>

definition bus_capacity :: nat where
  "bus_capacity = 16"

text \<open>
  What tokio documents: a value sent is seen by every receiver that has subscribed before, in the
  order of sending; the channel keeps the last \<open>bus_capacity\<close> values, and a receiver that is
  further behind is told how many it has missed and goes on at the oldest value kept. \<open>sent\<close> is
  everything sent so far, \<open>seen\<close> the position of a receiver in it, and \<open>recv\<close> without a result
  means that the receiver waits. All senders live as long as the registry, so the channel is not
  closed under a receiver.
\<close>

locale broadcast_bus =
  fixes send :: "Frame \<Rightarrow> 'b \<Rightarrow> 'b"
    and subscribe :: "'b \<Rightarrow> 'r"
    and recv :: "'b \<Rightarrow> 'r \<Rightarrow> (select_outcome \<times> 'r) option"
    and sent :: "'b \<Rightarrow> Frame list"
    and seen :: "'r \<Rightarrow> nat"
  assumes sent_send: "sent (send f b) = sent b @ [f]"
    and seen_subscribe: "seen (subscribe b) = length (sent b)"
    and recv_waits: "seen r = length (sent b) \<Longrightarrow> recv b r = None"
    and recv_next: "seen r < length (sent b) \<Longrightarrow> length (sent b) \<le> seen r + bus_capacity \<Longrightarrow>
      \<exists>r'. recv b r = Some (BusFrame (sent b ! seen r), r') \<and> seen r' = Suc (seen r)"
    and recv_lags: "seen r + bus_capacity < length (sent b) \<Longrightarrow>
      \<exists>r'. recv b r = Some (BusLagged (length (sent b) - bus_capacity - seen r), r')
        \<and> seen r' = length (sent b) - bus_capacity"
begin

lemma recv_cases:
  assumes "recv b r = Some (x, r')" and "seen r \<le> length (sent b)"
  obtains (frame) "x = BusFrame (sent b ! seen r)" "seen r' = Suc (seen r)" "seen r < length (sent b)"
  | (lagged) "x = BusLagged (seen r' - seen r)" "seen r \<le> seen r'" "seen r' \<le> length (sent b)"
      "seen r' < length (sent b)"
proof (cases "seen r = length (sent b)")
  case True
  then show ?thesis using recv_waits [of r b] assms(1) by simp
next
  case False
  with assms(2) have less: "seen r < length (sent b)" by simp
  show ?thesis
  proof (cases "length (sent b) \<le> seen r + bus_capacity")
    case True
    with recv_next [OF less] assms(1) less show ?thesis by (auto intro: frame)
  next
    case False
    then obtain s where "recv b r = Some (BusLagged (length (sent b) - bus_capacity - seen r), s)"
      "seen s = length (sent b) - bus_capacity"
      using recv_lags [of r b] by auto
    with assms(1) False show ?thesis
      by (intro lagged) (auto simp: bus_capacity_def)
  qed
qed

lemma waits_iff: "seen r \<le> length (sent b) \<Longrightarrow> recv b r = None \<longleftrightarrow> seen r = length (sent b)"
  using recv_waits [of r b] recv_next [of r b] recv_lags [of r b] by fastforce

end

text \<open>A log of everything sent with a position in it for each receiver is such a channel.\<close>

definition log_recv :: "Frame list \<Rightarrow> nat \<Rightarrow> (select_outcome \<times> nat) option" where
  "log_recv fs n =
     (if length fs \<le> n then None
      else if length fs \<le> n + bus_capacity then Some (BusFrame (fs ! n), Suc n)
      else Some (BusLagged (length fs - bus_capacity - n), length fs - bus_capacity))"

definition log_send :: "Frame \<Rightarrow> Frame list \<Rightarrow> Frame list" where
  "log_send f fs = fs @ [f]"

interpretation log_bus: broadcast_bus log_send length log_recv "\<lambda>fs. fs" "\<lambda>n. n"
  by unfold_locales (auto simp: log_recv_def log_send_def)

section \<open>What a receiver has taken\<close>

text \<open>The frames among the outcomes of a connection task, and how many frames it was told it missed.\<close>

definition taken :: "select_outcome list \<Rightarrow> Frame list" where
  "taken os = List.map_filter (\<lambda>x. case x of BusFrame f \<Rightarrow> Some f | _ \<Rightarrow> None) os"

definition missed :: "select_outcome list \<Rightarrow> nat" where
  "missed os = (\<Sum>x \<leftarrow> os. case x of BusLagged n \<Rightarrow> n | _ \<Rightarrow> 0)"

lemma taken_simps [simp]:
  "taken [] = []"
  "taken (x # os) = (case x of BusFrame f \<Rightarrow> f # taken os | _ \<Rightarrow> taken os)"
  "taken (os @ ps) = taken os @ taken ps"
  by (auto simp: taken_def map_filter_def split: select_outcome.split)

lemma missed_simps [simp]:
  "missed [] = 0"
  "missed (x # os) = (case x of BusLagged n \<Rightarrow> n + missed os | _ \<Rightarrow> missed os)"
  "missed (os @ ps) = missed os + missed ps"
  by (auto simp: missed_def split: select_outcome.split)

text \<open>
  A receiver that subscribed when \<open>start\<close> was sent is in step with the bus: what it has taken is a
  subsequence of what was sent up to its position, nothing is unaccounted for, and the frame right
  before its position, if it is past its start and has just taken one, is the last one taken.
\<close>

definition in_step :: "nat \<Rightarrow> Frame list \<Rightarrow> nat \<Rightarrow> select_outcome list \<Rightarrow> bool" where
  "in_step start fs n os \<longleftrightarrow>
     start \<le> n \<and> n \<le> length fs
     \<and> subseq (taken os) (take (n - start) (drop start fs))
     \<and> length (taken os) + missed os = n - start
     \<and> (n = length fs \<longrightarrow> start < n \<longrightarrow> taken os \<noteq> [] \<and> last (taken os) = last fs)"

lemma in_step_start: "in_step (length fs) fs (length fs) []"
  by (simp add: in_step_def)

lemma in_step_send: "in_step start fs n os \<Longrightarrow> in_step start (fs @ [f]) n os"
  by (auto simp: in_step_def)

lemma in_step_ignores:
  "in_step start fs n os \<Longrightarrow> taken [x] = [] \<Longrightarrow> missed [x] = 0 \<Longrightarrow> in_step start fs n (os @ [x])"
  by (auto simp: in_step_def simp del: taken_simps(2) missed_simps(2))

lemma in_step_frame:
  assumes "in_step start fs n os" and "n < length fs"
  shows "in_step start fs (Suc n) (os @ [BusFrame (fs ! n)])"
proof -
  have start: "start \<le> n" and less: "n - start < length (drop start fs)"
    using assms by (auto simp: in_step_def)
  have "take (Suc n - start) (drop start fs) = take (n - start) (drop start fs) @ [fs ! n]"
    using take_Suc_conv_app_nth [OF less] start assms(2) by (simp add: Suc_diff_le)
  moreover from assms have "Suc n = length fs \<Longrightarrow> fs ! n = last fs"
    by (cases fs) (auto simp: last_conv_nth)
  ultimately show ?thesis
    using assms by (auto simp: in_step_def intro: list_emb_append_mono)
qed

lemma in_step_skip:
  assumes "in_step start fs n os" and "n \<le> m" and "m < length fs"
  shows "in_step start fs m (os @ [BusLagged (m - n)])"
proof -
  have "take (n - start) (drop start fs) = take (n - start) (take (m - start) (drop start fs))"
    using assms(2) by (simp add: min_def)
  then have "subseq (take (n - start) (drop start fs)) (take (m - start) (drop start fs))"
    by (metis prefix_imp_subseq take_is_prefix)
  with assms show ?thesis
    by (auto simp: in_step_def elim: subseq_order.trans)
qed

lemma in_step_bound: "in_step start fs n os \<Longrightarrow> n \<le> length fs"
  by (simp add: in_step_def)

context broadcast_bus
begin

lemma in_step_recv:
  assumes "in_step start (sent b) (seen r) os" and "recv b r = Some (x, r')"
  shows "in_step start (sent b) (seen r') (os @ [x])"
  using assms(2) in_step_bound [OF assms(1)]
proof (cases rule: recv_cases)
  case frame
  then show ?thesis using in_step_frame [OF assms(1)] by simp
next
  case lagged
  then show ?thesis using in_step_skip [OF assms(1), of "seen r'"] by simp
qed

end

section \<open>The socket of a connection\<close>

text \<open>
  The bytes \<open>bs\<close> carry the first of the frames \<open>gs\<close> in full, and possibly the beginning of the next.
\<close>

definition carries :: "Frame list \<Rightarrow> bytes \<Rightarrow> bool" where
  "carries gs bs \<longleftrightarrow> (\<exists>fs enc part. prefix fs gs \<and> encode_stream fs = Inr enc \<and> bs = enc @ part
     \<and> (part = [] \<or> (\<exists>f b. prefix (fs @ [f]) gs \<and> to_bytes f = Inr b \<and> prefix part b)))"

lemma carries_Nil: "carries gs []"
  unfolding carries_def by (intro exI [of _ "[]"]) simp

lemma carries_part: "to_bytes f = Inr b \<Longrightarrow> prefix part b \<Longrightarrow> carries (f # gs) part"
  unfolding carries_def by (intro exI [of _ "[]"] exI [of _ part]) simp

lemma carries_Cons:
  assumes "to_bytes f = Inr b" and "carries gs bs"
  shows "carries (f # gs) (b @ bs)"
proof -
  from assms(2) obtain fs enc part where "prefix fs gs" "encode_stream fs = Inr enc" "bs = enc @ part"
    "part = [] \<or> (\<exists>f b. prefix (fs @ [f]) gs \<and> to_bytes f = Inr b \<and> prefix part b)"
    unfolding carries_def by blast
  with assms(1) show ?thesis
    unfolding carries_def by (intro exI [of _ "f # fs"] exI [of _ "b @ enc"] exI [of _ part]) simp
qed

text \<open>
  Documented behaviour of \<open>write_all\<close>: on success the whole buffer has been written; when it fails
  or is given up, some first part of it may have been.
\<close>

locale byte_sink =
  fixes write_all :: "bytes \<Rightarrow> 'w \<Rightarrow> write_outcome \<times> 'w"
    and content :: "'w \<Rightarrow> bytes"
  assumes written: "write_all bs w = (Written, w') \<Longrightarrow> content w' = content w @ bs"
    and not_written: "write_all bs w = (out, w') \<Longrightarrow> out \<noteq> Written \<Longrightarrow>
      \<exists>part. prefix part bs \<and> content w' = content w @ part"
begin

text \<open>While the loop goes on, the socket holds exactly the frames taken so far.\<close>

lemma forward_loop_running:
  "forward_loop write_all w os = (w', None) \<Longrightarrow>
     \<exists>bs. encode_stream (taken os) = Inr bs \<and> content w' = content w @ bs"
proof (induction os arbitrary: w)
  case (Cons x os)
  show ?case
  proof (cases x)
    case (BusFrame f)
    with Cons.prems obtain w1 where sent: "send_frame write_all w f = (Inr (), w1)"
      and rest: "forward_loop write_all w1 os = (w', None)"
      by (auto split: prod.splits sum.splits)
    then obtain b where "to_bytes f = Inr b" "content w1 = content w @ b"
      using written [of _ w] by (auto simp: send_frame_def split: sum.splits prod.splits write_outcome.splits)
    with Cons.IH [OF rest] BusFrame show ?thesis by auto
  qed (use Cons in \<open>auto split: sum.splits if_splits\<close>)
qed simp

text \<open>
  However the loop stands, the socket holds some of the frames taken, the first ones, in order,
  and possibly the beginning of the next.
\<close>

lemma forward_loop_content:
  "\<exists>bs. content (fst (forward_loop write_all w os)) = content w @ bs \<and> carries (taken os) bs"
proof (induction os arbitrary: w)
  case Nil
  show ?case by (simp add: carries_Nil)
next
  case (Cons x os)
  show ?case
  proof (cases x)
    case (BusFrame f)
    show ?thesis
    proof (cases "to_bytes f")
      case (Inl e)
      with BusFrame show ?thesis by (simp add: send_frame_def carries_Nil)
    next
      case (Inr b)
      obtain out w1 where out: "write_all b w = (out, w1)" by fastforce
      show ?thesis
      proof (cases "out = Written")
        case True
        with Cons.IH [of w1] written out Inr BusFrame show ?thesis
          by (auto simp: send_frame_def intro: carries_Cons)
      next
        case False
        from not_written [OF out False] obtain part where
          "prefix part b" "content w1 = content w @ part" by blast
        with False out Inr BusFrame show ?thesis
          by (auto simp: send_frame_def intro: carries_part split: write_outcome.splits)
      qed
    qed
  qed (use Cons in \<open>auto simp: carries_Nil split: sum.splits if_splits\<close>)
qed

end

text \<open>A socket that takes everything, and one that breaks after so many bytes.\<close>

definition breaking_write :: "bytes \<Rightarrow> bytes \<times> nat \<Rightarrow> write_outcome \<times> bytes \<times> nat" where
  "breaking_write bs s =
     (let (got, room) = s in
      if length bs \<le> room then (Written, got @ bs, room - length bs)
      else (WriteFailed (OtherIo 32), got @ take room bs, 0))"

interpretation kept: byte_sink keep_write "\<lambda>w. w"
  by unfold_locales (auto simp: keep_write_def)

interpretation breaking: byte_sink breaking_write fst
  by unfold_locales
    (auto simp: breaking_write_def Let_def take_is_prefix split: if_splits prod.splits)

end
