(* ===== verification/Endpoints_Properties.thy ===== *)
theory Endpoints_Properties
  imports Endpoints Bus
begin

text \<open>
  The stand-alone client against the stand-alone server (\<^verbatim>\<open>src/src/transport.rs\<close>), over connections that
  may break anywhere: what the client has put on its sockets, and what the server makes of them.
\<close>

section \<open>What the client leaves on a socket\<close>

text \<open>
  The bytes hold the frames of a segment in full, or all but the last one in full and a part of
  that one.
\<close>

definition holds_segment :: "Frame list \<Rightarrow> bytes \<Rightarrow> bool" where
  "holds_segment seg bs \<longleftrightarrow> encode_stream seg = Inr bs
     \<or> (\<exists>fs f enc b part. seg = fs @ [f] \<and> encode_stream fs = Inr enc \<and> to_bytes f = Inr b
          \<and> prefix part b \<and> bs = enc @ part)"

lemma holds_segment_Cons:
  assumes "to_bytes f = Inr b" and "holds_segment seg bs"
  shows "holds_segment (f # seg) (b @ bs)"
  using assms(2) unfolding holds_segment_def
proof (elim disjE exE conjE)
  assume "encode_stream seg = Inr bs"
  with assms(1) show "encode_stream (f # seg) = Inr (b @ bs)
    \<or> (\<exists>fs g enc c part. f # seg = fs @ [g] \<and> encode_stream fs = Inr enc \<and> to_bytes g = Inr c
          \<and> prefix part c \<and> b @ bs = enc @ part)" by simp
next
  fix fs g enc c part
  assume "seg = fs @ [g]" "encode_stream fs = Inr enc" "to_bytes g = Inr c" "prefix part c" "bs = enc @ part"
  with assms(1) show "encode_stream (f # seg) = Inr (b @ bs)
    \<or> (\<exists>fs g enc c part. f # seg = fs @ [g] \<and> encode_stream fs = Inr enc \<and> to_bytes g = Inr c
          \<and> prefix part c \<and> b @ bs = enc @ part)"
    by (intro disjI2 exI [of _ "f # fs"] exI [of _ g] exI [of _ "b @ enc"] exI [of _ c] exI [of _ part]) simp
qed

lemma holds_segment_part: "to_bytes f = Inr b \<Longrightarrow> prefix part b \<Longrightarrow> holds_segment [f] part"
  unfolding holds_segment_def
  by (intro disjI2 exI [of _ "[]"] exI [of _ f] exI [of _ b] exI [of _ part]) simp

context byte_sink
begin

lemma client_conn_segment:
  assumes "client_conn write_all w q = (w', left)" and "list_all (\<lambda>f. \<exists>b. to_bytes f = Inr b) q"
  shows "\<exists>seg bs. q = seg @ (case left of None \<Rightarrow> [] | Some q' \<Rightarrow> q')
    \<and> content w' = content w @ bs \<and> holds_segment seg bs"
  using assms
proof (induction q arbitrary: w)
  case Nil
  then show ?case by (intro exI [of _ "[]"]) (auto simp: holds_segment_def)
next
  case (Cons f q)
  from Cons.prems(2) obtain b where b: "to_bytes f = Inr b" by auto
  obtain out w1 where out: "write_all b w = (out, w1)" by fastforce
  show ?case
  proof (cases "out = Written")
    case True
    with out b Cons.prems have "client_conn write_all w1 q = (w', left)" by (simp add: send_frame_def)
    from Cons.IH [OF this] Cons.prems(2) obtain seg bs where
      "q = seg @ (case left of None \<Rightarrow> [] | Some q' \<Rightarrow> q')" "content w' = content w1 @ bs" "holds_segment seg bs"
      by auto
    with True written out b show ?thesis
      by (intro exI [of _ "f # seg"] exI [of _ "b @ bs"]) (auto intro: holds_segment_Cons)
  next
    case False
    from not_written [OF out False] obtain part where "prefix part b" "content w1 = content w @ part" by blast
    with False out b Cons.prems(1) show ?thesis
      by (intro exI [of _ "[f]"] exI [of _ part])
        (auto simp: send_frame_def intro: holds_segment_part split: write_outcome.splits)
  qed
qed

lemma client_loop_segments:
  assumes "client_loop write_all backoff cs q = (done, ws, sleeps, q')"
    and "list_all (\<lambda>f. \<exists>b. to_bytes f = Inr b) q"
    and "list_all (\<lambda>c. c = None \<or> content (the c) = []) cs"
  shows "\<exists>segs. q = concat segs @ q' \<and> list_all2 (\<lambda>seg w. holds_segment seg (content w)) segs ws
    \<and> (done \<longrightarrow> q' = [])"
  using assms
proof (induction cs arbitrary: backoff q ws sleeps)
  case Nil
  then show ?case by (intro exI [of _ "[]"]) simp
next
  case (Cons c cs)
  show ?case
  proof (cases c)
    case None
    with Cons.prems Cons.IH show ?thesis by (auto split: prod.splits)
  next
    case (Some w)
    obtain w1 left where conn: "client_conn write_all w q = (w1, left)" by fastforce
    from client_conn_segment [OF conn Cons.prems(2)] Cons.prems(3) Some obtain seg where
      seg: "q = seg @ (case left of None \<Rightarrow> [] | Some q1 \<Rightarrow> q1)" "holds_segment seg (content w1)"
      by auto
    show ?thesis
    proof (cases left)
      case None
      with seg conn Some Cons.prems(1) show ?thesis by (intro exI [of _ "[seg]"]) auto
    next
      case (Some q1)
      with \<open>c = Some w\<close> conn Cons.prems(1) obtain ws1 sleeps1 where
        rest: "client_loop write_all 2 cs q1 = (done, ws1, sleeps1, q')" "ws = w1 # ws1"
        by (auto split: prod.splits)
      from seg(1) Some Cons.prems(2) have "list_all (\<lambda>f. \<exists>b. to_bytes f = Inr b) q1" by simp
      from Cons.IH [OF rest(1) this] Cons.prems(3) obtain segs where "q1 = concat segs @ q'"
        "list_all2 (\<lambda>seg w. holds_segment seg (content w)) segs ws1" "done \<longrightarrow> q' = []" by auto
      with seg Some rest(2) show ?thesis by (intro exI [of _ "seg # segs"]) auto
    qed
  qed
qed

end

section \<open>What the server makes of it\<close>

lemma short_part:
  assumes "to_bytes f = Inr b" and "prefix part b" and "part \<noteq> b"
  shows "length part < 8 \<or> length part < 8 + header_payload_len part"
proof (cases "8 \<le> length part")
  case True
  from assms(2) obtain c where c: "b = part @ c" by (auto simp: prefix_def)
  with assms(3) have "length part < length b" by auto
  moreover have "header_payload_len part = length b - 8"
    using wire.enc_header [OF assms(1)] wire.enc_body [OF assms(1)] c True
    by (auto simp: HEADER_LEN_def header_payload_len_def nth_append)
  ultimately show ?thesis by linarith
qed simp

text \<open>Of a stream of frames that is cut off anywhere, the frames before the cut are read, and only they.\<close>

lemma cut_stream_prefix:
  "encode_stream fs = Inr enc \<Longrightarrow> prefix p enc \<Longrightarrow> prefix (fst (decode_stream p)) fs"
proof (induction fs arbitrary: enc p)
  case Nil
  then show ?case by (simp add: decode_stream_partial)
next
  case (Cons f fs)
  from Cons.prems(1) obtain b c where bc: "to_bytes f = Inr b" "encode_stream fs = Inr c" "enc = b @ c"
    by (auto simp: bind_result_Inr)
  show ?case
  proof (cases "prefix b p")
    case True
    then obtain p' where "p = b @ p'" by (auto simp: prefix_def)
    with Cons.prems(2) bc Cons.IH [of c p'] show ?thesis
      by (simp add: decode_stream_frame [OF bc(1)] case_prod_beta Let_def)
  next
    case False
    with Cons.prems(2) bc(3) have "prefix p b" "p \<noteq> b"
      by (auto simp: prefix_append dest: prefix_length_le)
    from decode_stream_partial [OF short_part [OF bc(1) this]] show ?thesis by simp
  qed
qed

lemma holds_segment_prefix:
  assumes "holds_segment seg bs" and "list_all (\<lambda>f. \<exists>b. to_bytes f = Inr b) seg"
  shows "\<exists>enc. encode_stream seg = Inr enc \<and> prefix bs enc"
  using assms(1) unfolding holds_segment_def
proof (elim disjE exE conjE)
  fix fs f enc b part
  assume seg: "seg = fs @ [f]" "encode_stream fs = Inr enc" "to_bytes f = Inr b" "prefix part b" "bs = enc @ part"
  have "encode_stream (fs @ [f]) = Inr (enc @ b)"
    using seg(2,3) by (induction fs arbitrary: enc) (auto simp: bind_result_Inr)
  with seg show ?thesis by simp
qed simp

text \<open>What arrived in full is read in full, but for a part of a frame at its end.\<close>

lemma segment_received:
  assumes "holds_segment seg bs"
  shows "fst (decode_stream bs) = seg \<or> fst (decode_stream bs) = butlast seg"
  using assms unfolding holds_segment_def
proof (elim disjE exE conjE)
  assume "encode_stream seg = Inr bs"
  from decode_stream_encoded [OF this, of "[]"] show ?thesis
    by (simp add: decode_stream_partial)
next
  fix fs f enc b part
  assume seg: "seg = fs @ [f]" "encode_stream fs = Inr enc" "to_bytes f = Inr b" "prefix part b" "bs = enc @ part"
  show ?thesis
  proof (cases "part = b")
    case True
    then show ?thesis
      using decode_stream_encoded [OF seg(2), of b] decode_stream_frame [OF seg(3), of "[]"] seg
      by (simp add: decode_stream_partial)
  next
    case False
    then show ?thesis
      using decode_stream_encoded [OF seg(2), of part] decode_stream_partial [OF short_part [OF seg(3,4) False]] seg
      by simp
  qed
qed

lemma server_reads_streams:
  assumes "exact_reader read_exact rest ending"
  shows "server_loop read_exact put d (map Stream rs) = Some (None,
    map (\<lambda>got. fold put (map payload got) (new_writer d None, no_processes)) (map (fst \<circ> decode_stream \<circ> rest) rs))"
  by (induction rs) (simp_all add: exact_reader.conn_loop_decodes [OF assms])

section \<open>Properties\<close>

text \<open>
  C10. The client and the server against each other, over any number of connections that break
  anywhere, where of what the client's socket accepted any initial part may arrive: the frames that
  the client takes from its channel are split, in order, into one segment for each connection, and
  the server receives an initial part of each segment. So frames are delivered unchanged, in order
  and at most once, and a client that has returned has taken them all. Where everything the socket
  accepted did arrive, no frame of the segment is missing but possibly its last, the one in flight
  when the connection broke.
\<close>
theorem client_to_server_at_most_once:
  assumes "byte_sink write_all content" and "exact_reader read_exact rest ending"
    and "client write_all cs q = (done, ws, sleeps, q')"
    and "list_all (\<lambda>f. length (payload f) \<le> U32_MAX) q"
    and "list_all (\<lambda>c. c = None \<or> content (the c) = []) cs"
    and "list_all2 (\<lambda>r w. prefix (rest r) (content w)) rs ws"
  shows "\<exists>segs gots. q = concat segs @ q' \<and> (done \<longrightarrow> q' = [])
    \<and> server_loop read_exact put d (map Stream rs)
        = Some (None, map (\<lambda>got. fold put (map payload got) (new_writer d None, no_processes)) gots)
    \<and> length segs = length ws \<and> list_all2 prefix gots segs
    \<and> (\<forall>i < length ws. rest (rs ! i) = content (ws ! i) \<longrightarrow> gots ! i = segs ! i \<or> gots ! i = butlast (segs ! i))"
proof -
  have enc: "list_all (\<lambda>f. \<exists>b. to_bytes f = Inr b) q"
    using assms(4) by (simp add: to_bytes_total_iff)
  from byte_sink.client_loop_segments [OF assms(1) assms(3) [unfolded client_def] this assms(5)]
  obtain segs where segs: "q = concat segs @ q'" "list_all2 (\<lambda>seg w. holds_segment seg (content w)) segs ws"
    "done \<longrightarrow> q' = []" by blast
  let ?gots = "map (fst \<circ> decode_stream \<circ> rest) rs"
  have len: "length segs = length ws" "length rs = length ws"
    using segs(2) assms(6) by (auto dest: list_all2_lengthD)
  have at: "prefix (?gots ! i) (segs ! i) \<and> (rest (rs ! i) = content (ws ! i) \<longrightarrow>
      ?gots ! i = segs ! i \<or> ?gots ! i = butlast (segs ! i))" if i: "i < length ws" for i
  proof
    have held: "holds_segment (segs ! i) (content (ws ! i))" "prefix (rest (rs ! i)) (content (ws ! i))"
      using segs(2) assms(6) i len by (auto simp: list_all2_conv_all_nth)
    have "segs ! i \<in> set segs" using i len(1) by simp
    then have "set (segs ! i) \<subseteq> set q" by (auto simp: segs(1))
    with enc have "list_all (\<lambda>f. \<exists>b. to_bytes f = Inr b) (segs ! i)"
      by (auto simp only: list_all_iff)
    from holds_segment_prefix [OF held(1) this] cut_stream_prefix held(2) len i
    show "prefix (?gots ! i) (segs ! i)" by (auto intro: prefix_order.trans)
    show "rest (rs ! i) = content (ws ! i) \<longrightarrow> ?gots ! i = segs ! i \<or> ?gots ! i = butlast (segs ! i)"
      using segment_received [OF held(1)] i len by auto
  qed
  show ?thesis
  proof (intro exI conjI)
    show "q = concat segs @ q'" "done \<longrightarrow> q' = []" "length segs = length ws" by (rule segs len)+
    show "server_loop read_exact put d (map Stream rs) = Some (None,
        map (\<lambda>got. fold put (map payload got) (new_writer d None, no_processes)) ?gots)"
      by (rule server_reads_streams [OF assms(2)])
    show "list_all2 prefix ?gots segs" using at len by (simp add: list_all2_conv_all_nth)
    show "\<forall>i < length ws. rest (rs ! i) = content (ws ! i) \<longrightarrow>
        ?gots ! i = segs ! i \<or> ?gots ! i = butlast (segs ! i)" using at by blast
  qed
qed

text \<open>
  Three frames over a connection that breaks in the middle of the second, and of which the last
  bytes of the first are lost on the way, and over one that holds.
\<close>

theorem client_to_server_at_most_once_witness:
  "\<exists>segs gots. [new_png [1], new_png [2], new_png [3]] = concat segs \<and> length segs = 2
    \<and> list_all2 prefix gots segs
    \<and> server_loop chunk_read_exact (receive_payload (\<lambda>v. None) (\<lambda>c. None)) Xvfb
        [Stream ([[0xC5, 0x53, 1, 1, 0, 0, 0]], OtherIo 104),
         Stream ([[0xC5, 0x53, 1, 1, 0, 0, 0, 1, 3]], UnexpectedEof)]
      = Some (None, map (\<lambda>got. fold (receive_payload (\<lambda>v. None) (\<lambda>c. None)) (map payload got)
          (new_writer Xvfb None, no_processes)) gots)"
proof -
  let ?q = "[new_png [1], new_png [2], new_png [3]]"
  have enc: "to_bytes (new_png [b]) = Inr [0xC5, 0x53, 1, 1, 0, 0, 0, 1, b]" for b
    by (simp add: to_bytes_def new_png_def MAGIC_def VERSION_def FRAME_TYPE_PNG_def U32_MAX_def
        u32_to_be_bytes_def)
  have run: "client breaking_write [Some ([], 12), None, Some ([], 100)] ?q =
      (True, [([0xC5, 0x53, 1, 1, 0, 0, 0, 1, 1, 0xC5, 0x53, 1], 0), ([0xC5, 0x53, 1, 1, 0, 0, 0, 1, 3], 91)],
       [1, 2], [])"
    by (simp add: client_def send_frame_def enc breaking_write_def)
  have small: "list_all (\<lambda>f. length (payload f) \<le> U32_MAX) ?q"
    by (simp add: new_png_def U32_MAX_def)
  from client_to_server_at_most_once [OF breaking.byte_sink_axioms chunked.exact_reader_axioms run small,
      of "[([[0xC5, 0x53, 1, 1, 0, 0, 0]], OtherIo 104),
           ([[0xC5, 0x53, 1, 1, 0, 0, 0, 1, 3]], UnexpectedEof)]"
      "receive_payload (\<lambda>v. None) (\<lambda>c. None)" Xvfb]
  show ?thesis by (simp add: chunk_rest_def numeral_2_eq_2 del: server_loop.simps) blast
qed

end
