(* ===== verification/Fanout.thy ===== *)
theory Fanout
  imports Bus Daemon_Properties
begin

text \<open>
  The way of a clipboard image through the daemon (\<^verbatim>\<open>src/src/daemon.rs\<close>): from the watcher into its
  channel, through the bridge task or an \<open>InjectFrame\<close> message onto the bus of \<open>Bus\<close>, and from there
  to the socket of every connection task, interleaved with all other steps of the core of \<open>Daemon\<close>.
\<close>

section \<open>The system\<close>

text \<open>The bus, and the sockets of the connections by the number of their close channel.\<close>

record ('b, 'r, 'w) outlets =
  bus_send :: "Frame \<Rightarrow> 'b \<Rightarrow> 'b"
  bus_subscribe :: "'b \<Rightarrow> 'r"
  bus_recv :: "'b \<Rightarrow> 'r \<Rightarrow> (select_outcome \<times> 'r) option"
  sock_write :: "bytes \<Rightarrow> 'w \<Rightarrow> write_outcome \<times> 'w"
  new_sock :: "chan \<Rightarrow> 'w"

text \<open>
  Beside the core: the \<open>mpsc\<close> channel between watcher and bridge, the bus, and for every connection
  task that has subscribed its receiver and what its loop has met so far.
\<close>

record ('b, 'r) system =
  core :: daemon
  watch_queue :: "Frame list"
  bus :: 'b
  links :: "chan \<Rightarrow> ('r \<times> select_outcome list) option"

definition system_start :: "'b \<Rightarrow> ('b, 'r) system" where
  "system_start b = \<lparr>core = initial, watch_queue = [], bus = b, links = (\<lambda>c. None)\<rparr>"

datatype system_event =
    Core event
  | Watched Frame               \<comment> \<open>the watcher's \<open>tx.send\<close> succeeds\<close>
  | Bridged                     \<comment> \<open>the bridge takes a frame and publishes it\<close>
  | Injected Frame              \<comment> \<open>an \<open>InjectFrame\<close> message\<close>
  | Subscribed hostname chan    \<comment> \<open>a new connection subscribes\<close>
  | LinkMet hostname chan select_outcome  \<comment> \<open>one turn of a connection's loop\<close>

definition watch_capacity :: nat where
  "watch_capacity = 16"

text \<open>The bridge task: one frame from the watcher's channel onto the bus.\<close>

definition bridge :: "(Frame \<Rightarrow> 'b \<Rightarrow> 'b) \<Rightarrow> Frame list \<Rightarrow> 'b \<Rightarrow> (Frame list \<times> 'b) option" where
  "bridge send q b = (case q of [] \<Rightarrow> None | f # q' \<Rightarrow> Some (q', send f b))"

lemma bridge_simps [simp]:
  "bridge send [] b = None" "bridge send (f # q) b = Some (q, send f b)"
  by (simp_all add: bridge_def)

lemma bridge_SomeD: "bridge send q b = Some (q', b') \<Longrightarrow> \<exists>f. q = f # q' \<and> b' = send f b"
  by (auto simp: bridge_def split: list.splits)

text \<open>The steps of a connection task in its loop are turns of the loop here.\<close>

fun turn_of_loop :: "event \<Rightarrow> bool" where
  "turn_of_loop (Forwarded h c) = True"
| "turn_of_loop (ConnEnded h c why) = True"
| "turn_of_loop e = False"

text \<open>
  The receiver after an outcome of \<open>select!\<close>, if it is possible now: the bus must have this to offer,
  and the close branch needs a dropped sender.
\<close>

definition rx_after ::
  "('b \<Rightarrow> 'r \<Rightarrow> (select_outcome \<times> 'r) option) \<Rightarrow> bool \<Rightarrow> 'b \<Rightarrow> 'r \<Rightarrow> select_outcome \<Rightarrow> 'r option" where
  "rx_after recv closable b r x =
     (case x of
        CloseReceived \<Rightarrow> if closable then Some r else None
      | RemoteRead res \<Rightarrow> Some r
      | _ \<Rightarrow> (case recv b r of Some (y, r') \<Rightarrow> if y = x then Some r' else None | None \<Rightarrow> None))"

definition loop_event :: "hostname \<Rightarrow> chan \<Rightarrow> conn_end option \<Rightarrow> event" where
  "loop_event h c ended = (case ended of None \<Rightarrow> Forwarded h c | Some why \<Rightarrow> ConnEnded h c why)"

text \<open>What is on a connection's socket, and whether its loop has ended, after what it has met.\<close>

abbreviation link_loop ::
  "('b, 'r, 'w) outlets \<Rightarrow> chan \<Rightarrow> select_outcome list \<Rightarrow> 'w \<times> conn_end option" where
  "link_loop x c met \<equiv> forward_loop (sock_write x) (new_sock x c) met"

fun system_next ::
  "('b, 'r, 'w) outlets \<Rightarrow> system_event \<Rightarrow> ('b, 'r) system \<Rightarrow> ('b, 'r) system option" where
  "system_next x (Core e) s =
     (if enabled (core s) e \<and> \<not> turn_of_loop e then Some (s\<lparr>core := fire e (core s)\<rparr>) else None)"
| "system_next x (Watched f) s =
     (if length (watch_queue s) < watch_capacity
      then Some (s\<lparr>watch_queue := watch_queue s @ [f]\<rparr>) else None)"
| "system_next x Bridged s =
     (case bridge (bus_send x) (watch_queue s) (bus s) of
        None \<Rightarrow> None
      | Some (q, b) \<Rightarrow> Some (s\<lparr>watch_queue := q, bus := b\<rparr>))"
| "system_next x (Injected f) s = Some (s\<lparr>bus := bus_send x f (bus s)\<rparr>)"
| "system_next x (Subscribed h c) s =
     (if Conn h c \<in># tasks (core s) \<and> links s c = None
      then Some (s\<lparr>links := (links s)(c \<mapsto> (bus_subscribe x (bus s), []))\<rparr>) else None)"
| "system_next x (LinkMet h c y) s =
     (case links s c of
        None \<Rightarrow> None
      | Some (r, met) \<Rightarrow>
          if Conn h c \<in># tasks (core s) then
            (case rx_after (bus_recv x) (\<not> chan_open (core s) h c) (bus s) r y of
               None \<Rightarrow> None
             | Some r' \<Rightarrow>
                 Some (s\<lparr>core := fire (loop_event h c (snd (link_loop x c (met @ [y])))) (core s),
                         links := (links s)(c \<mapsto> (r', met @ [y]))\<rparr>))
          else None)"

fun system_run ::
  "('b, 'r, 'w) outlets \<Rightarrow> system_event list \<Rightarrow> ('b, 'r) system \<Rightarrow> ('b, 'r) system option" where
  "system_run x [] s = Some s"
| "system_run x (e # es) s = (case system_next x e s of None \<Rightarrow> None | Some s' \<Rightarrow> system_run x es s')"

lemma system_run_append:
  "system_run x (es @ fs) s = (case system_run x es s of None \<Rightarrow> None | Some s' \<Rightarrow> system_run x fs s')"
  by (induction es arbitrary: s) (auto split: option.splits)

section \<open>The links and the tasks\<close>

lemma forward_loop_append:
  "forward_loop wa w (os @ ps) =
     (case forward_loop wa w os of
        (w', None) \<Rightarrow> forward_loop wa w' ps
      | (w', Some e) \<Rightarrow> (w', Some e))"
proof (induction os arbitrary: w)
  case (Cons x os)
  then show ?case by (cases x) (auto split: sum.splits prod.splits)
qed simp

lemma close_turn:
  assumes "snd (forward_loop wa w met) = None"
    and "snd (forward_loop wa w (met @ [y])) = Some CloseSignal"
  shows "y = CloseReceived"
  using assms by (cases y) (auto simp: forward_loop_append split: prod.splits sum.splits if_splits)

lemma new_conn:
  "daemon_step s e s' \<Longrightarrow> Conn h c \<in># tasks s' \<Longrightarrow> Conn h c \<in># tasks s \<or> c = next_chan s"
  by (induction rule: daemon_step.induct) (auto dest: in_diffD split: if_splits)

text \<open>A close channel belongs to one host.\<close>

definition owners_ok :: "daemon \<Rightarrow> bool" where
  "owners_ok s \<longleftrightarrow> (\<forall>h k c. 0 < Daemon_Invariants.holders (tasks s) h c \<longrightarrow>
     0 < Daemon_Invariants.holders (tasks s) k c \<longrightarrow> h = k)"

lemma owners_step:
  assumes "daemon_step s e s'" and "holders_ok s" and "owners_ok s"
  shows "owners_ok s'"
proof -
  have fresh: "Daemon_Invariants.holders (tasks s) h (next_chan s) = 0" for h
    using assms(2) by (force simp: holders_ok_def)
  show ?thesis
    unfolding owners_ok_def
  proof (intro allI impI)
    fix h k c
    assume h: "0 < Daemon_Invariants.holders (tasks s') h c"
      and k: "0 < Daemon_Invariants.holders (tasks s') k c"
    show "h = k"
    proof (cases "c = next_chan s")
      case True
      with h k show ?thesis
        by (simp add: holders_step_eq [OF assms(1)] fresh split: if_splits)
    next
      case False
      with h k have "0 < Daemon_Invariants.holders (tasks s) h c" "0 < Daemon_Invariants.holders (tasks s) k c"
        by (simp_all add: holders_step_eq [OF assms(1)] split: if_splits)
      with assms(3) show ?thesis by (auto simp: owners_ok_def)
    qed
  qed
qed

definition system_inv :: "('b, 'r, 'w) outlets \<Rightarrow> ('b, 'r) system \<Rightarrow> bool" where
  "system_inv x s \<longleftrightarrow> daemon_inv (core s) \<and> owners_ok (core s) \<and>
     (\<forall>h c r met. links s c = Some (r, met) \<longrightarrow>
        c < next_chan (core s) \<and>
        (Conn h c \<in># tasks (core s) \<longrightarrow> snd (link_loop x c met) = None))"

lemma system_inv_start: "system_inv x (system_start b)"
  by (simp add: system_inv_def system_start_def daemon_inv_initial)
    (simp add: owners_ok_def initial_def Daemon_Invariants.holders_def)

lemma conn_holds: "Conn h c \<in># T \<Longrightarrow> 0 < Daemon_Invariants.holders T h c"
  by (simp add: Daemon_Invariants.holders_def)

lemma conn_numbered: "daemon_inv s \<Longrightarrow> Conn h c \<in># tasks s \<Longrightarrow> c < next_chan s"
  by (auto simp: daemon_inv_def holders_ok_def dest: conn_holds)

lemma conn_removed:
  assumes "daemon_inv s" and "owners_ok s" and "Conn h c \<in># tasks s"
  shows "Conn k c \<notin># tasks s - {#Conn h c#}"
proof
  assume in': "Conn k c \<in># tasks s - {#Conn h c#}"
  then have "Conn k c \<in># tasks s" by (rule in_diffD)
  with assms have "k = h" by (metis conn_holds owners_ok_def)
  moreover have "count (tasks s) (Conn h c) \<le> 1"
    using assms(1) by (auto simp: daemon_inv_def holders_ok_def Daemon_Invariants.holders_def)
      (metis add_leD1)
  ultimately show False using in' count_le_one_diff by metis
qed

text \<open>Every step of the system is a step of the core or leaves the core alone.\<close>

lemma system_core:
  assumes "system_inv x s" and "system_next x e s = Some s'"
  shows "core s' = core s \<or> (\<exists>d. daemon_step (core s) d (core s'))"
proof (cases e)
  case (LinkMet h c y)
  with assms(2) obtain r met r' where l: "links s c = Some (r, met)" "Conn h c \<in># tasks (core s)"
    "rx_after (bus_recv x) (\<not> chan_open (core s) h c) (bus s) r y = Some r'"
    "core s' = fire (loop_event h c (snd (link_loop x c (met @ [y])))) (core s)"
    by (auto split: option.splits if_splits)
  have run: "snd (link_loop x c met) = None" using assms(1) l by (auto simp: system_inv_def)
  have "enabled (core s) (loop_event h c (snd (link_loop x c (met @ [y]))))"
  proof (cases "snd (link_loop x c (met @ [y])) = Some CloseSignal")
    case True
    with close_turn [OF run] have "y = CloseReceived" by blast
    with True l show ?thesis by (auto simp: loop_event_def rx_after_def split: if_splits)
  qed (use l in \<open>auto simp: loop_event_def split: option.splits\<close>)
  with l(4) show ?thesis by (auto simp: daemon_step_iff)
qed (use assms(2) in \<open>auto simp: daemon_step_iff split: if_splits option.splits dest!: bridge_SomeD\<close>)

lemma system_inv_step:
  assumes inv: "system_inv x s" and st: "system_next x e s = Some s'"
  shows "system_inv x s'"
proof -
  have core: "daemon_inv (core s')" "owners_ok (core s')" "next_chan (core s) \<le> next_chan (core s')"
    using system_core [OF inv st] inv next_chan_step(1)
    by (auto simp: system_inv_def daemon_inv_def dest: daemon_inv_step intro: owners_step)
  have "c < next_chan (core s') \<and> (Conn h c \<in># tasks (core s') \<longrightarrow> snd (link_loop x c met) = None)"
    if link: "links s' c = Some (r, met)" for h c r met
  proof (cases e)
    case (Core d)
    with st link inv have d: "daemon_step (core s) d (core s')" "links s c = Some (r, met)"
      by (auto simp: daemon_step_iff split: if_splits)
    with inv core(3) new_conn [OF d(1), of h c] show ?thesis by (fastforce simp: system_inv_def)
  next
    case (Subscribed k b)
    with st link inv core(3) show ?thesis
      by (auto simp: system_inv_def split: if_splits dest: conn_numbered)
  next
    case (LinkMet k b y)
    with st obtain r0 met0 r' where l: "links s b = Some (r0, met0)" "Conn k b \<in># tasks (core s)"
      "core s' = fire (loop_event k b (snd (link_loop x b (met0 @ [y])))) (core s)"
      "links s' = (links s)(b \<mapsto> (r', met0 @ [y]))"
      by (auto split: option.splits if_splits)
    show ?thesis
    proof (cases "c = b")
      case True
      with l link have met: "met = met0 @ [y]" by simp
      have "Conn h b \<notin># tasks (core s')" if "snd (link_loop x b met) \<noteq> None"
        using that l(2,3) met inv conn_removed [of "core s" k b h]
        by (auto simp: loop_event_def system_inv_def split: option.splits)
      with True l inv core(3) met show ?thesis by (fastforce simp: system_inv_def)
    next
      case False
      with l link inv core(3) have "links s c = Some (r, met)"
        "Conn h c \<in># tasks (core s') \<Longrightarrow> Conn h c \<in># tasks (core s)"
        by (auto simp: loop_event_def split: option.splits dest: in_diffD)
      with inv core(3) show ?thesis by (fastforce simp: system_inv_def)
    qed
  qed (use st link inv in \<open>auto simp: system_inv_def split: if_splits option.splits dest!: bridge_SomeD\<close>)
  with core show ?thesis unfolding system_inv_def by blast
qed

lemma system_inv_run: "system_run x es s = Some s' \<Longrightarrow> system_inv x s \<Longrightarrow> system_inv x s'"
  by (induction es arbitrary: s) (auto split: option.splits intro: system_inv_step)

section \<open>What reaches the bus\<close>

text \<open>The frames that the watcher, and that messages, have handed over in a run.\<close>

fun watched_frames :: "system_event list \<Rightarrow> Frame list" where
  "watched_frames [] = []"
| "watched_frames (Watched f # es) = f # watched_frames es"
| "watched_frames (e # es) = watched_frames es"

fun injected_frames :: "system_event list \<Rightarrow> Frame list" where
  "injected_frames [] = []"
| "injected_frames (Injected f # es) = f # injected_frames es"
| "injected_frames (e # es) = injected_frames es"

text \<open>A bus that keeps tokio's promises, with sockets that keep those of \<open>write_all\<close>.\<close>

locale fanout =
  broadcast_bus "bus_send x" "bus_subscribe x" "bus_recv x" sent seen
  + byte_sink "sock_write x" content
  for x :: "('b, 'r, 'w) outlets" and sent :: "'b \<Rightarrow> Frame list" and seen :: "'r \<Rightarrow> nat"
    and content :: "'w \<Rightarrow> bytes"
begin

lemma published:
  "system_run x es s = Some s' \<Longrightarrow>
     \<exists>bridged ys. watch_queue s @ watched_frames es = bridged @ watch_queue s'
       \<and> sent (bus s') = sent (bus s) @ ys \<and> ys \<in> shuffles bridged (injected_frames es)"
proof (induction es arbitrary: s)
  case Nil
  then show ?case by (intro exI [of _ "[]"]) simp
next
  case (Cons e es)
  then obtain s1 where s1: "system_next x e s = Some s1" and "system_run x es s1 = Some s'"
    by (auto split: option.splits)
  from Cons.IH [OF this(2)] obtain bridged ys where
    ih: "watch_queue s1 @ watched_frames es = bridged @ watch_queue s'"
      "sent (bus s') = sent (bus s1) @ ys" "ys \<in> shuffles bridged (injected_frames es)"
    by blast
  show ?case
  proof (cases e)
    case Bridged
    with s1 obtain f q where "watch_queue s = f # q" "watch_queue s1 = q" "sent (bus s1) = sent (bus s) @ [f]"
      by (auto simp: sent_send split: option.splits dest!: bridge_SomeD)
    with Bridged ih show ?thesis
      by (intro exI [of _ "f # bridged"] exI [of _ "f # ys"]) (auto intro: Cons_in_shuffles_leftI)
  next
    case (Injected f)
    with s1 ih show ?thesis
      by (intro exI [of _ bridged] exI [of _ "f # ys"])
        (auto simp: sent_send intro: Cons_in_shuffles_rightI)
  next
    case (Watched f)
    with s1 ih show ?thesis
      by (intro exI [of _ bridged] exI [of _ ys]) (auto split: if_splits)
  qed (use s1 ih in \<open>auto split: if_splits option.splits\<close>)
qed

lemma watch_queue_bounded:
  "system_run x es s = Some s' \<Longrightarrow> length (watch_queue s) \<le> watch_capacity \<Longrightarrow>
     length (watch_queue s') \<le> watch_capacity"
proof (induction es arbitrary: s)
  case (Cons e es)
  then show ?case by (cases e) (auto split: if_splits option.splits dest!: bridge_SomeD)
qed simp

lemma link_in_step:
  assumes "system_next x e s = Some s'" and "links s c = Some (r, met)"
    and "in_step start (sent (bus s)) (seen r) met"
  shows "\<exists>r' met'. links s' c = Some (r', met') \<and> in_step start (sent (bus s')) (seen r') met'"
proof (cases e)
  case (LinkMet h b y)
  show ?thesis
  proof (cases "b = c")
    case True
    with LinkMet assms(1,2) obtain r' where
      after: "rx_after (bus_recv x) (\<not> chan_open (core s) h c) (bus s) r y = Some r'"
      and s': "bus s' = bus s" "links s' c = Some (r', met @ [y])"
      by (auto split: option.splits if_splits)
    have "in_step start (sent (bus s)) (seen r') (met @ [y])"
    proof (cases "taken [y] = [] \<and> missed [y] = 0 \<and> r' = r")
      case True
      with assms(3) show ?thesis by (auto intro: in_step_ignores)
    next
      case False
      with after have "bus_recv x (bus s) r = Some (y, r')"
        by (cases y) (auto simp: rx_after_def split: if_splits option.splits)
      with in_step_recv [OF assms(3)] show ?thesis by blast
    qed
    with s' show ?thesis by auto
  qed (use LinkMet assms in \<open>auto split: option.splits if_splits\<close>)
qed (use assms in \<open>auto simp: sent_send intro: in_step_send split: if_splits option.splits dest!: bridge_SomeD\<close>)

lemma link_follows:
  "system_run x es s = Some s' \<Longrightarrow> links s c = Some (r, met) \<Longrightarrow>
     in_step start (sent (bus s)) (seen r) met \<Longrightarrow>
     \<exists>r' met'. links s' c = Some (r', met') \<and> in_step start (sent (bus s')) (seen r') met'"
proof (induction es arbitrary: s r met)
  case (Cons e es)
  then obtain s1 where "system_next x e s = Some s1" "system_run x es s1 = Some s'"
    by (auto split: option.splits)
  with link_in_step [of e s s1 c r met] Cons.prems(2,3) Cons.IH show ?case by blast
qed auto

text \<open>From the subscription on, a link is in step with the bus.\<close>

lemma subscribed_follows:
  assumes "system_next x (Subscribed h c) s1 = Some s2" and "system_run x es s2 = Some s"
  shows "\<exists>r met. links s c = Some (r, met)
    \<and> in_step (length (sent (bus s1))) (sent (bus s)) (seen r) met"
proof -
  from assms(1) have "links s2 c = Some (bus_subscribe x (bus s1), [])" "bus s2 = bus s1"
    by (auto split: if_splits)
  with link_follows [OF assms(2)] show ?thesis by (simp add: seen_subscribe in_step_start)
qed

text \<open>A running link has put exactly what it has taken on its socket.\<close>

lemma running_link:
  assumes "system_inv x s" and "links s c = Some (r, met)" and "Conn h c \<in># tasks (core s)"
  shows "\<exists>bs. encode_stream (taken met) = Inr bs
    \<and> content (fst (link_loop x c met)) = content (new_sock x c) @ bs"
proof -
  from assms have "snd (link_loop x c met) = None" by (auto simp: system_inv_def)
  then have "link_loop x c met = (fst (link_loop x c met), None)" by (metis prod.collapse)
  from forward_loop_running [OF this] show ?thesis .
qed

text \<open>One turn of a loop that goes on changes its link only.\<close>

lemma link_turn:
  assumes "links s c = Some (r, met)" and "Conn h c \<in># tasks (core s)"
    and "bus_recv x (bus s) r = Some (y, r')" and "snd (link_loop x c (met @ [y])) = None"
    and "seen r \<le> length (sent (bus s))"
  shows "system_next x (LinkMet h c y) s = Some (s\<lparr>links := (links s)(c \<mapsto> (r', met @ [y]))\<rparr>)"
  using assms(3,5)
proof (cases rule: recv_cases)
  case frame
  with assms show ?thesis by (cases s) (simp add: rx_after_def loop_event_def)
next
  case lagged
  with assms show ?thesis by (cases s) (simp add: rx_after_def loop_event_def)
qed

lemma drained_iff:
  assumes "in_step start (sent b) (seen r) met"
  shows "bus_recv x b r = None \<longleftrightarrow> seen r = length (sent b)"
  using waits_iff [OF in_step_bound [OF assms]] .

lemma sent_grows:
  assumes "system_run x es s = Some s'"
  shows "\<exists>ys. sent (bus s') = sent (bus s) @ ys"
  using published [OF assms] by blast

text \<open>
  How many turns a link needs to catch up: one for each frame that the bus still keeps, and one more
  when it is further behind.
\<close>

definition turns_behind :: "'b \<Rightarrow> 'r \<Rightarrow> nat" where
  "turns_behind b r = (let behind = length (sent b) - seen r in
     if behind \<le> bus_capacity then behind else Suc bus_capacity)"

lemma turns_behind_bound: "turns_behind b r \<le> Suc bus_capacity"
  by (simp add: turns_behind_def Let_def)

lemma turn_catches_up:
  assumes "bus_recv x b r = Some (y, r')" and "seen r \<le> length (sent b)"
  shows "turns_behind b r = Suc (turns_behind b r')" and "seen r' \<le> length (sent b)"
    and "y \<in> BusFrame ` set (sent b) \<union> range BusLagged"
proof -
  have "turns_behind b r = Suc (turns_behind b r') \<and> seen r' \<le> length (sent b)
    \<and> y \<in> BusFrame ` set (sent b) \<union> range BusLagged"
  proof (cases "length (sent b) \<le> seen r + bus_capacity")
    case True
    moreover have "seen r < length (sent b)"
      using recv_waits [of r b] assms by (cases "seen r = length (sent b)") auto
    ultimately show ?thesis
      using recv_next [of r b] assms by (auto simp: turns_behind_def Let_def)
  next
    case False
    then show ?thesis
      using recv_lags [of r b] assms by (auto simp: turns_behind_def Let_def)
  qed
  then show "turns_behind b r = Suc (turns_behind b r')" "seen r' \<le> length (sent b)"
    "y \<in> BusFrame ` set (sent b) \<union> range BusLagged" by auto
qed

lemma writable_turn:
  assumes "\<And>bs w. fst (sock_write x bs w) = Written"
    and "list_all (\<lambda>f. length (payload f) \<le> U32_MAX) fs"
    and "y \<in> BusFrame ` set fs \<union> range BusLagged" and "snd (link_loop x c met) = None"
  shows "snd (link_loop x c (met @ [y])) = None"
proof -
  have send: "\<exists>w'. send_frame (sock_write x) w f = (Inr (), w')" if f: "f \<in> set fs" for f w
  proof -
    obtain bs where "to_bytes f = Inr bs"
      using to_bytes_total_iff [of f] f assms(2) by (auto simp: list_all_iff)
    moreover obtain w' where "sock_write x bs w = (Written, w')" using assms(1) by (metis prod.collapse)
    ultimately show ?thesis by (simp add: send_frame_def)
  qed
  obtain w where w: "link_loop x c met = (w, None)" using assms(4) by (metis prod.collapse)
  from assms(3) consider (frame) f where "y = BusFrame f" "f \<in> set fs" | (lagged) n where "y = BusLagged n"
    by auto
  then show ?thesis
  proof cases
    case frame
    with send [of f w] w show ?thesis by (auto simp: forward_loop_append)
  qed (simp add: forward_loop_append w)
qed

lemma link_catches_up:
  assumes "\<And>bs w. fst (sock_write x bs w) = Written"
    and "list_all (\<lambda>f. length (payload f) \<le> U32_MAX) (sent (bus s))"
    and "Conn h c \<in># tasks (core s)" and "links s c = Some (r, met)"
    and "seen r \<le> length (sent (bus s))" and "snd (link_loop x c met) = None"
  shows "\<exists>ys s' r' met'. length ys = turns_behind (bus s) r
    \<and> system_run x (map (LinkMet h c) ys) s = Some s' \<and> core s' = core s \<and> bus s' = bus s
    \<and> links s' c = Some (r', met') \<and> bus_recv x (bus s') r' = None"
  using assms(2-)
proof (induction "turns_behind (bus s) r" arbitrary: s r met)
  case 0
  then have "bus_recv x (bus s) r = None"
    by (auto simp: turns_behind_def Let_def bus_capacity_def split: if_splits intro: recv_waits)
  with 0 show ?case by (intro exI [of _ "[]"]) auto
next
  case (Suc n)
  have "bus_recv x (bus s) r \<noteq> None"
    using Suc.hyps(2) waits_iff [OF Suc.prems(4)]
    by (auto simp: turns_behind_def Let_def bus_capacity_def split: if_splits)
  then obtain y r' where y: "bus_recv x (bus s) r = Some (y, r')" by auto
  note catch = turn_catches_up [OF y Suc.prems(4)]
  note go = writable_turn [OF assms(1) Suc.prems(1) catch(3) Suc.prems(5)]
  let ?s1 = "s\<lparr>links := (links s)(c \<mapsto> (r', met @ [y]))\<rparr>"
  note turn = link_turn [OF Suc.prems(3,2) y go Suc.prems(4)]
  have "\<exists>ys s' r'' met'. length ys = turns_behind (bus ?s1) r'
      \<and> system_run x (map (LinkMet h c) ys) ?s1 = Some s' \<and> core s' = core ?s1 \<and> bus s' = bus ?s1
      \<and> links s' c = Some (r'', met') \<and> bus_recv x (bus s') r'' = None"
    using Suc.hyps(1) [of ?s1 r' "met @ [y]"] Suc.hyps(2) Suc.prems(1,2) catch go by simp
  then obtain ys s' r'' met' where "length ys = turns_behind (bus s) r'"
      "system_run x (map (LinkMet h c) ys) ?s1 = Some s'" "core s' = core s" "bus s' = bus s"
      "links s' c = Some (r'', met')" "bus_recv x (bus s') r'' = None"
    by auto
  with turn catch(1) show ?case by (intro exI [of _ "y # ys"]) auto
qed

end

end
