(* ===== verification/Fanout_Properties.thy ===== *)
theory Fanout_Properties
  imports Fanout
begin

text \<open>
  What the way through the daemon guarantees, over every interleaving of the watcher, the bridge,
  messages, the core and the connection tasks: nothing is lost or reordered on the way to the bus,
  every connection gets a subsequence of what is published, and once it has caught up the machine
  at its other end holds the latest image. The interface \<open>fanout\<close> is interpreted on a log of the
  frames sent with sockets that take everything and with sockets that break.
\<close>

section \<open>Two systems\<close>

text \<open>The log of \<open>Bus\<close> with sockets that take everything, and with sockets that break.\<close>

definition example_outlets :: "(Frame list, nat, bytes) outlets" where
  "example_outlets = \<lparr>bus_send = log_send, bus_subscribe = length, bus_recv = log_recv,
     sock_write = keep_write, new_sock = (\<lambda>c. [])\<rparr>"

definition breaking_outlets :: "nat \<Rightarrow> (Frame list, nat, bytes \<times> nat) outlets" where
  "breaking_outlets room = \<lparr>bus_send = log_send, bus_subscribe = length, bus_recv = log_recv,
     sock_write = breaking_write, new_sock = (\<lambda>c. ([], room))\<rparr>"

lemma outlets_sel [simp]:
  "bus_send example_outlets = log_send" "bus_subscribe example_outlets = length"
  "bus_recv example_outlets = log_recv" "sock_write example_outlets = keep_write"
  "new_sock example_outlets = (\<lambda>c. [])"
  "bus_send (breaking_outlets n) = log_send" "bus_subscribe (breaking_outlets n) = length"
  "bus_recv (breaking_outlets n) = log_recv" "sock_write (breaking_outlets n) = breaking_write"
  "new_sock (breaking_outlets n) = (\<lambda>c. ([], n))"
  by (simp_all add: example_outlets_def breaking_outlets_def)

interpretation example: fanout example_outlets "\<lambda>fs. fs" "\<lambda>n. n" "\<lambda>w. w"
  by (simp add: fanout_def log_bus.broadcast_bus_axioms kept.byte_sink_axioms)

interpretation breaking: fanout "breaking_outlets n" "\<lambda>fs. fs" "\<lambda>n. n" fst for n
  by (simp add: fanout_def log_bus.broadcast_bus_axioms breaking.byte_sink_axioms)

section \<open>Properties\<close>

text \<open>
  C4. From the watcher and from messages to the bus: at every moment of every run the frames that
  the watcher has handed over are those published by the bridge, in order, followed by those that
  wait in the channel, at most sixteen; and what was published is an interleaving of the bridged
  and the injected frames, each of them once.
\<close>
theorem bus_carries_every_frame:
  assumes "fanout x sent seen content" and "system_run x es (system_start b) = Some s"
  shows "\<exists>bridged ys. watched_frames es = bridged @ watch_queue s
    \<and> length (watch_queue s) \<le> watch_capacity
    \<and> sent (bus s) = sent b @ ys \<and> ys \<in> shuffles bridged (injected_frames es)"
  using fanout.published [OF assms] fanout.watch_queue_bounded [OF assms]
  by (simp add: system_start_def)

theorem bus_carries_every_frame_witness:
  "\<exists>bridged ys. [new_png [1], new_png [2]] = bridged @ [new_png [2]]
    \<and> [new_png [3], new_png [1]] = [] @ ys \<and> ys \<in> shuffles bridged [new_png [3]]"
proof -
  let ?es = "[Watched (new_png [1]), Watched (new_png [2]), Injected (new_png [3]), Bridged]"
  obtain s where s: "system_run example_outlets ?es (system_start []) = Some s"
      "watch_queue s = [new_png [2]]" "bus s = [new_png [3], new_png [1]]"
    by (simp add: system_start_def watch_capacity_def log_send_def)
  from bus_carries_every_frame [OF example.fanout_axioms s(1)] s(2,3) show ?thesis by simp
qed

text \<open>
  C3. A connection is fed in order and without repetition: after its subscription, whatever the
  rest of the daemon does, the frames that its loop has taken are a subsequence of those published
  since, in the order of publication; every frame before its position was either taken or reported
  as missed; and its socket holds the first of the frames taken, each in full, and at most the
  beginning of the next.
\<close>
theorem link_follows_bus:
  assumes "fanout x sent seen content"
    and "system_next x (Subscribed h c) s1 = Some s2" and "system_run x es s2 = Some s"
  shows "\<exists>ys r met bs. sent (bus s) = sent (bus s1) @ ys \<and> links s c = Some (r, met)
    \<and> subseq (taken met) (take (length (taken met) + missed met) ys)
    \<and> length (taken met) + missed met = seen r - length (sent (bus s1))
    \<and> content (fst (link_loop x c met)) = content (new_sock x c) @ bs \<and> carries (taken met) bs"
proof -
  from fanout.sent_grows [OF assms(1,3)] assms(2) obtain ys where ys: "sent (bus s) = sent (bus s1) @ ys"
    by (auto split: if_splits)
  from fanout.subscribed_follows [OF assms] obtain r met where
    r: "links s c = Some (r, met)" "in_step (length (sent (bus s1))) (sent (bus s)) (seen r) met"
    by blast
  from byte_sink.forward_loop_content [OF fanout.axioms(2) [OF assms(1)], of "new_sock x c" met]
  obtain bs where "content (fst (link_loop x c met)) = content (new_sock x c) @ bs" "carries (taken met) bs"
    by blast
  with r ys show ?thesis by (auto simp: in_step_def)
qed

text \<open>A session to one host whose connection has subscribed, and eighteen frames at once.\<close>

definition linked_events :: "system_event list" where
  "linked_events = map Core [IpcConnect ''b'' 7, Claimed ''b'', Probed ''b'' True, Dialed ''b'' True]"

definition linked_system :: "'b \<Rightarrow> ('b, 'r) system" where
  "linked_system b = \<lparr>core = one_host ''b'' (linked {7} 0) {#Watching ''b'' 7, Conn ''b'' 0#} 1,
     watch_queue = [], bus = b, links = (\<lambda>c. None)\<rparr>"

lemma core_twice [simp]: "s\<lparr>core := d, core := e\<rparr> = s\<lparr>core := e\<rparr>"
  by (cases s) simp

lemma linked_events_run: "system_run x linked_events (system_start b) = Some (linked_system b)"
proof -
  have cores: "system_run x (map Core es) s = (case execs es (core s) of None \<Rightarrow> None
      | Some d \<Rightarrow> Some (s\<lparr>core := d\<rparr>))"
    if "list_all (\<lambda>e. \<not> turn_of_loop e) es" for es and s :: "('a, 'b) system"
    using that by (induction es arbitrary: s) (auto split: option.split)
  let ?es = "[IpcConnect ''b'' 7, Claimed ''b'', Probed ''b'' True, Dialed ''b'' True]"
  have run: "execs ?es initial = Some (one_host ''b'' (linked {7} 0) {#Watching ''b'' 7, Conn ''b'' 0#} 1)"
    using connected_run by (simp only: run_execs)
  have "list_all (\<lambda>e. \<not> turn_of_loop e) ?es" by simp
  from cores [OF this, of "system_start b"] show ?thesis
    by (simp only: run linked_events_def linked_system_def system_start_def system.simps option.case)
qed

definition subscribed_system :: "'r \<Rightarrow> 'b \<Rightarrow> ('b, 'r) system" where
  "subscribed_system r b =
     (linked_system b)\<lparr>links := (\<lambda>c. if c = 0 then Some (r, []) else None)\<rparr>"

lemma linked_subscribes:
  "bus_subscribe x b = r \<Longrightarrow>
     system_next x (Subscribed ''b'' 0) (linked_system b) = Some (subscribed_system r b)"
  by (auto simp: linked_system_def subscribed_system_def)

lemma subscribed_system_sel [simp]:
  "core (subscribed_system r b) = one_host ''b'' (linked {7} 0) {#Watching ''b'' 7, Conn ''b'' 0#} 1"
  "watch_queue (subscribed_system r b) = []" "bus (subscribed_system r b) = b"
  "links (subscribed_system r b) c = (if c = 0 then Some (r, []) else None)"
  by (simp_all add: subscribed_system_def linked_system_def)

lemma injections_run:
  "bus_send x = log_send \<Longrightarrow>
     system_run x (map Injected fs) s = Some (s\<lparr>bus := bus s @ fs\<rparr>)"
  by (induction fs arbitrary: s) (auto simp: log_send_def)

definition burst :: "Frame list" where
  "burst = replicate 16 (new_png [1]) @ [new_png [2]]"

lemma burst_length [simp]: "length burst = 17"
  by (simp add: burst_def)

theorem link_follows_bus_witness:
  "\<exists>s r met. system_run example_outlets (map Injected burst @ [LinkMet ''b'' 0 (BusLagged 1)])
      (subscribed_system 0 []) = Some s
    \<and> links s 0 = Some (r, met) \<and> length (taken met) + missed met = r"
proof -
  let ?s2 = "subscribed_system 0 [] :: (Frame list, nat) system"
  have sub: "system_next example_outlets (Subscribed ''b'' 0) (linked_system []) = Some ?s2"
    by (rule linked_subscribes) simp
  have "\<exists>s. system_run example_outlets (map Injected burst @ [LinkMet ''b'' 0 (BusLagged 1)]) ?s2 = Some s"
    by (simp add: system_run_append injections_run rx_after_def log_recv_def bus_capacity_def)
  then obtain s where s: "system_run example_outlets
      (map Injected burst @ [LinkMet ''b'' 0 (BusLagged 1)]) ?s2 = Some s" ..
  from link_follows_bus [OF example.fanout_axioms sub s] s show ?thesis
    by (auto simp: linked_system_def)
qed

text \<open>
  C2. Every machine gets the latest image: in every run of the daemon, once a connection whose loop
  still runs has caught up with the bus, the other end, if its clipboard tool works, serves the
  frame that was published last, even if the connection lagged on the way and frames were dropped;
  and if it has never lagged, it was sent exactly the frames published since its subscription.
\<close>
theorem latest_image_reaches_link:
  assumes "fanout x sent seen content"
    and "system_run x before (system_start b) = Some s1"
    and "system_next x (Subscribed h c) s1 = Some s2" and "system_run x es s2 = Some s"
    and "Conn h c \<in># tasks (core s)" and "links s c = Some (r, met)"
    and "bus_recv x (bus s) r = None" and "sent (bus s) \<noteq> sent (bus s1)"
    and "content (new_sock x c) = []"
    and "exact_reader read_exact rest ending" and "ending rd = UnexpectedEof"
    and "rest rd = content (fst (link_loop x c met))"
    and "write_command env d dstr = Some cmd" and "spawn_result cmd = None"
  shows "\<exists>wr pr k. conn_loop read_exact (receive_payload env spawn_result) rd (new_writer d dstr, no_processes)
      = Some (ConnectionClosed, wr, pr)
    \<and> current_child wr = Some k \<and> processes.holders pr = [(k, cmd, Some (payload (last (sent (bus s)))))]
    \<and> (missed met = 0 \<longrightarrow> sent (bus s) = sent (bus s1) @ taken met)"
proof -
  from fanout.sent_grows [OF assms(1,4)] assms(3) obtain ys where ys: "sent (bus s) = sent (bus s1) @ ys"
    by (auto split: if_splits)
  from fanout.subscribed_follows [OF assms(1,3,4)] assms(6)
  have follows: "in_step (length (sent (bus s1))) (sent (bus s)) (seen r) met" by auto
  have all_seen: "seen r = length (sent (bus s))"
    using fanout.drained_iff [OF assms(1) follows] assms(7) by blast
  have "ys \<noteq> []" using ys assms(8) by auto
  with follows all_seen ys have got: "taken met \<noteq> []" "last (taken met) = last (sent (bus s))"
    by (auto simp: in_step_def)
  have inv: "system_inv x s"
    using system_inv_run [OF assms(2) system_inv_start] system_inv_step [OF _ assms(3)]
      system_inv_run [OF assms(4)] by blast
  from fanout.running_link [OF assms(1) inv assms(6,5)] obtain bs where
    bs: "encode_stream (taken met) = Inr bs" "rest rd = bs @ []"
    using assms(9,12) by auto
  from conn_loop_delivers [OF assms(10) bs assms(11)]
  have received: "conn_loop read_exact (receive_payload env spawn_result) rd (new_writer d dstr, no_processes)
    = Some (ConnectionClosed, fold (receive_payload env spawn_result) (map payload (taken met))
        (new_writer d dstr, no_processes))" by simp
  have "subseq (taken met) ys" "length (taken met) + missed met = length ys"
    using follows all_seen ys by (auto simp: in_step_def)
  then have "missed met = 0 \<Longrightarrow> taken met = ys"
    using subseq_same_length by fastforce
  with received got ys last_payload_held [where sp = spawn_result and cmd = cmd, OF assms(13,14), of "map payload (taken met)"]
  show ?thesis by (auto simp: last_map)
qed

text \<open>The example system after the burst, and after its link has caught up.\<close>

lemma burst_system:
  "system_run example_outlets (map Injected burst) (subscribed_system 0 []) =
     Some ((subscribed_system 0 [])\<lparr>bus := burst\<rparr>)"
  by (simp add: injections_run)

lemma burst_caught_up:
  "\<exists>ys s r met. length ys = 17
    \<and> system_run example_outlets (map Injected burst @ map (LinkMet ''b'' 0) ys) (subscribed_system 0 []) = Some s
    \<and> Conn ''b'' 0 \<in># tasks (core s) \<and> bus s = burst \<and> links s 0 = Some (r, met) \<and> log_recv burst r = None"
proof -
  let ?s = "(subscribed_system 0 [])\<lparr>bus := burst\<rparr> :: (Frame list, nat) system"
  have "list_all (\<lambda>f. length (payload f) \<le> U32_MAX) burst"
    by (simp add: burst_def new_png_def U32_MAX_def list_all_iff)
  with example.link_catches_up [of ?s "''b''" 0 0 "[]"]
  obtain ys s r met where "length ys = example.turns_behind burst 0"
    "system_run example_outlets (map (LinkMet ''b'' 0) ys) ?s = Some s"
    "core s = core ?s" "bus s = burst" "links s 0 = Some (r, met)" "log_recv burst r = None"
    by (auto simp: keep_write_def)
  then show ?thesis
    by (intro exI [of _ ys] exI [of _ s] exI [of _ r] exI [of _ met])
      (simp add: system_run_append burst_system example.turns_behind_def bus_capacity_def)
qed

theorem latest_image_reaches_link_witness:
  "\<exists>ys s r met wr pr k cmd.
     system_run example_outlets (map Injected burst @ map (LinkMet ''b'' 0) ys) (subscribed_system 0 []) = Some s
    \<and> links s 0 = Some (r, met) \<and> length ys = 17
    \<and> conn_loop chunk_read_exact (receive_payload (\<lambda>v. None) (\<lambda>c. None))
        ([fst (link_loop example_outlets 0 met)], UnexpectedEof)
        (new_writer Xvfb (Some '':7''), no_processes) = Some (ConnectionClosed, wr, pr)
    \<and> processes.holders pr = [(k, cmd, Some [2])]"
proof -
  obtain ys s r met where s: "length ys = 17"
    "system_run example_outlets (map Injected burst @ map (LinkMet ''b'' 0) ys) (subscribed_system 0 []) = Some s"
    "Conn ''b'' 0 \<in># tasks (core s)" "bus s = burst" "links s 0 = Some (r, met)" "log_recv burst r = None"
    using burst_caught_up by blast
  obtain cmd where cmd: "write_command (\<lambda>v. None) Xvfb (Some '':7'') = Some cmd"
    by (simp add: write_command_def Let_def)
  have sub: "system_next example_outlets (Subscribed ''b'' 0) (linked_system []) = Some (subscribed_system 0 [])"
    by (rule linked_subscribes) simp
  have bus: "bus s \<noteq> bus (linked_system [])" "last (bus s) = new_png [2]"
    by (simp_all add: s(4) burst_def linked_system_def)
  let ?rd = "([fst (link_loop example_outlets 0 met)], UnexpectedEof)"
  from latest_image_reaches_link [OF example.fanout_axioms linked_events_run sub s(2,3,5) _ bus(1) _
      chunked.exact_reader_axioms, of ?rd "\<lambda>v. None" Xvfb "Some '':7''" cmd "\<lambda>c. None"] cmd s(4,6) bus(2)
  obtain wr pr k where "conn_loop chunk_read_exact (receive_payload (\<lambda>v. None) (\<lambda>c. None)) ?rd
      (new_writer Xvfb (Some '':7''), no_processes) = Some (ConnectionClosed, wr, pr)"
    "processes.holders pr = [(k, cmd, Some [2])]"
    by (auto simp: chunk_rest_def new_png_def)
  with s(1,2,5) show ?thesis by blast
qed

text \<open>
  C5. A connection catches up quickly: however far it is behind the bus, if its socket takes what
  is written, at most seventeen turns of its loop, and nothing else, bring it to the latest frame,
  one to be told of the frames that are gone and one for each of the sixteen frames that the bus
  keeps.
\<close>
theorem link_catches_up_soon:
  assumes "fanout x sent seen content"
    and "system_run x before (system_start b) = Some s1"
    and "system_next x (Subscribed h c) s1 = Some s2" and "system_run x es s2 = Some s"
    and "Conn h c \<in># tasks (core s)" and "\<And>bs w. fst (sock_write x bs w) = Written"
    and "list_all (\<lambda>f. length (payload f) \<le> U32_MAX) (sent (bus s))"
  shows "\<exists>ys s' r met. length ys \<le> bus_capacity + 1
    \<and> system_run x (map (LinkMet h c) ys) s = Some s' \<and> core s' = core s \<and> bus s' = bus s
    \<and> links s' c = Some (r, met) \<and> bus_recv x (bus s') r = None"
proof -
  from fanout.subscribed_follows [OF assms(1,3,4)] obtain r met where
    link: "links s c = Some (r, met)" "seen r \<le> length (sent (bus s))"
    by (auto simp: in_step_def)
  have "system_inv x s"
    using system_inv_run [OF assms(2) system_inv_start] system_inv_step [OF _ assms(3)]
      system_inv_run [OF assms(4)] by blast
  then have "snd (link_loop x c met) = None"
    using link(1) assms(5) by (auto simp: system_inv_def)
  from fanout.link_catches_up [OF assms(1,6,7,5) link this] obtain ys s' r' met' where
    "length ys = fanout.turns_behind sent seen (bus s) r" "system_run x (map (LinkMet h c) ys) s = Some s'"
    "core s' = core s" "bus s' = bus s" "links s' c = Some (r', met')" "bus_recv x (bus s') r' = None"
    by blast
  then show ?thesis
    using fanout.turns_behind_bound [OF assms(1), of "bus s" r]
    by (intro exI [of _ ys] exI [of _ s'] exI [of _ r'] exI [of _ met']) simp
qed

theorem link_catches_up_soon_witness:
  "\<exists>ys s' r met. length ys \<le> 17
    \<and> system_run example_outlets (map (LinkMet ''b'' 0) ys) ((subscribed_system 0 [])\<lparr>bus := burst\<rparr>) = Some s'
    \<and> links s' 0 = Some (r, met) \<and> log_recv (bus s') r = None"
proof -
  let ?s = "(subscribed_system 0 [])\<lparr>bus := burst\<rparr> :: (Frame list, nat) system"
  have sub: "system_next example_outlets (Subscribed ''b'' 0) (linked_system []) = Some (subscribed_system 0 [])"
    by (rule linked_subscribes) simp
  have "list_all (\<lambda>f. length (payload f) \<le> U32_MAX) burst"
    by (simp add: burst_def new_png_def U32_MAX_def list_all_iff)
  with link_catches_up_soon [OF example.fanout_axioms linked_events_run sub burst_system]
  show ?thesis by (auto simp: keep_write_def bus_capacity_def)
qed

end
