(* ===== verification/Receivers.thy ===== *)
theory Receivers
  imports Selection
begin

text \<open>
  The inbound connections of a daemon side by side (\<open>run_tcp_server\<close>, \<^verbatim>\<open>src/src/daemon.rs\<close>): each has a
  \<open>ClipboardWriter\<close> of its own, and all write to the clipboard of the daemon's one display. A writer
  knows the child it has started and no other; a connection that ends drops its writer, whose child
  goes on serving the clipboard. What is on the clipboard after any run follows a specification that
  speaks of connections and images only.
\<close>

section \<open>Connections and processes\<close>






section \<open>Ownership of the processes\<close>










section \<open>The clipboard by connections\<close>










section \<open>Property\<close>



end
