(* ===== verification/Refresh_Termination.thy ===== *)
theory Refresh_Termination
  imports Daemon_Properties
begin

text \<open>
  A liveness refresh (\<open>refresh_peer_liveness\<close>, \<^verbatim>\<open>src/src/daemon.rs\<close>) always comes to its end, however its
  steps are interleaved with those of other tasks and of other refreshes, and whatever its probes
  find. The rank of a refresh is a pair that drops with every one of its steps; the multiset of the
  ranks of all refreshes drops in the multiset order.
\<close>

section \<open>Ranks\<close>

fun rank :: "refresh_pc \<Rightarrow> nat \<times> nat" where
  "rank (CleanIdle hs) = (1, length hs)"
| "rank (Scan hs js) = (0, 2 * length hs + length js)"

fun task_rank :: "task \<Rightarrow> (nat \<times> nat) multiset" where
  "task_rank (Refresh cc pc) = {#rank pc#}"
| "task_rank t = {#}"

definition ranks :: "task multiset \<Rightarrow> (nat \<times> nat) multiset" where
  "ranks T = (\<Sum>t \<in># T. task_rank t)"

lemma ranks_simps [simp]:
  "ranks {#} = {#}" "ranks (add_mset t T) = task_rank t + ranks T" "ranks (T + U) = ranks T + ranks U"
  by (simp_all add: ranks_def)

lemma ranks_remove: "t \<in># T \<Longrightarrow> ranks T = task_rank t + ranks (T - {#t#})"
  by (auto dest: multi_member_split)

lemma ranks_diff [simp]: "t \<in># T \<Longrightarrow> ranks (T - {#t#}) = ranks T - task_rank t"
  by (simp add: ranks_remove)

lemma ranks_watchers [simp]: "ranks (image_mset (Watching h) M) = {#}"
  by (induction M) auto

text \<open>The steps of a refresh after its start.\<close>

fun refresh_step :: "event \<Rightarrow> bool" where
  "refresh_step (RefreshCleaned cc h hs) = True"
| "refresh_step (RefreshListed cc hs) = True"
| "refresh_step (RefreshScanned cc h hs js) = True"
| "refresh_step (RefreshJoined cc js h was found) = True"
| "refresh_step (RefreshJobFailed cc js h was) = True"
| "refresh_step (RefreshDone cc infos) = True"
| "refresh_step e = False"

fun refresh_start :: "event \<Rightarrow> bool" where
  "refresh_start (RefreshStarted cc hs) = True"
| "refresh_start e = False"

definition rank_order :: "((nat \<times> nat) \<times> (nat \<times> nat)) set" where
  "rank_order = less_than <*lex*> less_than"

lemma wf_rank_order: "wf (mult1 rank_order)"
  by (simp add: rank_order_def wf_mult1 wf_lex_prod)

lemma remove1_shorter: "x \<in> set xs \<Longrightarrow> length (remove1 x xs) < length xs"
  using length_pos_if_in_set [of x xs] by (simp add: length_remove1)

lemma rank_drops:
  assumes "Refresh cc pc \<in># T" and "list_all (\<lambda>q. (rank q, rank pc) \<in> rank_order) qs"
  shows "(ranks (T - {#Refresh cc pc#}) + mset (map rank qs), ranks T) \<in> mult1 rank_order"
proof -
  have "ranks T = add_mset (rank pc) (ranks (T - {#Refresh cc pc#}))"
    using ranks_remove [OF assms(1)] by simp
  moreover have "\<forall>b. b \<in># mset (map rank qs) \<longrightarrow> (b, rank pc) \<in> rank_order"
    using assms(2) by (auto simp: list_all_iff)
  ultimately show ?thesis unfolding mult1_def by blast
qed

lemma ranks_same:
  assumes "daemon_step s e s'" and "\<not> refresh_step e" and "\<not> refresh_start e"
  shows "ranks (tasks s') = ranks (tasks s)"
  using assms
  by (induction rule: daemon_step.induct) (auto split: if_splits)

lemma ranks_drop:
  assumes "daemon_step s e s'" and "refresh_step e"
  shows "(ranks (tasks s'), ranks (tasks s)) \<in> mult1 rank_order"
  using assms
proof (induction rule: daemon_step.induct)
  case (refresh_clean cc h hs s)
  from rank_drops [OF this(1), of "[CleanIdle hs]"] show ?case by (simp add: rank_order_def)
next
  case (refresh_list cc s hs)
  from rank_drops [OF this(1), of "[Scan hs []]"] show ?case by (simp add: rank_order_def)
next
  case (refresh_scan cc h hs js s)
  from rank_drops [OF this(1), of "[Scan hs (case refresh_candidate cc h (peers s) of
      None \<Rightarrow> js | Some was \<Rightarrow> js @ [(h, was)])]"]
  show ?case by (simp add: rank_order_def split: option.splits)
next
  case (refresh_join cc js s h was found)
  then have "length (remove1 (h, was) js) < length js" by (simp add: remove1_shorter)
  with rank_drops [OF refresh_join(1), of "[Scan [] (remove1 (h, was) js)]"]
  show ?case by (cases was) (simp_all add: rank_order_def)
next
  case (refresh_job_failed cc js s h was)
  then have "length (remove1 (h, was) js) < length js" by (simp add: remove1_shorter)
  with rank_drops [OF refresh_job_failed(1), of "[Scan [] (remove1 (h, was) js)]"]
  show ?case by (simp add: rank_order_def)
next
  case (refresh_done cc s infos)
  from rank_drops [OF this(1), of "[]"] show ?case by simp
qed auto

section \<open>Refreshes come to their end\<close>

text \<open>What drops or stays in a well-founded order stays from some point on.\<close>

lemma wf_settles:
  assumes "wf r" and "\<And>i. i0 \<le> i \<Longrightarrow> f (Suc i) = f i \<or> (f (Suc i), f i) \<in> r"
  shows "\<exists>N \<ge> i0. \<forall>i \<ge> N. (f (Suc i), f i) \<notin> r"
proof -
  have "\<exists>z \<in> f ` {i0..}. \<forall>y. (y, z) \<in> r \<longrightarrow> y \<notin> f ` {i0..}"
    using wfE_min [OF assms(1), of "f i0" "f ` {i0..}"] by (metis atLeast_iff imageI order_refl)
  then obtain N where N: "i0 \<le> N" "\<And>i. i0 \<le> i \<Longrightarrow> (f i, f N) \<notin> r" by fastforce
  have same: "f i = f N" if "N \<le> i" for i
    using that
  proof (induction i rule: nat_induct_at_least)
    case (Suc i)
    with N assms(2) [of i] show ?case by (metis le_SucI order_trans)
  qed simp
  have "(f (Suc i), f i) \<notin> r" if "N \<le> i" for i
    using N that same [OF that] by (metis le_SucI order_trans)
  with N(1) show ?thesis by blast
qed

text \<open>
  C20. Every liveness refresh terminates: in any infinite run of the daemon, whatever its tasks do in
  between and whatever the probes find, if no new refresh starts after some moment then there is a
  moment after which no refresh takes a step; and a refresh that is not done can always take one.
  So none is blocked and none goes round for ever, and under an executor that is fair to the tasks
  all of them are done in the end.
\<close>
theorem refreshes_terminate:
  assumes "\<And>i. daemon_step (f i) (ev i) (f (Suc i))"
    and "\<And>i. i0 \<le> i \<Longrightarrow> \<not> refresh_start (ev i)"
  shows "(\<exists>N \<ge> i0. \<forall>i \<ge> N. \<not> refresh_step (ev i))
    \<and> (Refresh cc pc \<in># tasks (f k) \<longrightarrow> (\<exists>e s'. refresh_step e \<and> daemon_step (f k) e s'))"
proof
  have "ranks (tasks (f (Suc i))) = ranks (tasks (f i))
      \<or> (ranks (tasks (f (Suc i))), ranks (tasks (f i))) \<in> mult1 rank_order" if "i0 \<le> i" for i
    using ranks_same [OF assms(1)] ranks_drop [OF assms(1)] assms(2) [OF that] by blast
  from wf_settles [OF wf_rank_order, of i0 "\<lambda>i. ranks (tasks (f i))", OF this]
  show "\<exists>N \<ge> i0. \<forall>i \<ge> N. \<not> refresh_step (ev i)"
    using ranks_drop [OF assms(1)] by blast
  show "Refresh cc pc \<in># tasks (f k) \<longrightarrow> (\<exists>e s'. refresh_step e \<and> daemon_step (f k) e s')"
  proof
    assume "Refresh cc pc \<in># tasks (f k)"
    then have "\<exists>e. refresh_step e \<and> enabled (f k) e"
    proof (induction pc)
      case (CleanIdle hs)
      show ?case
      proof (cases hs)
        case Nil
        with CleanIdle show ?thesis
          by (intro exI [of _ "RefreshListed cc (hosts_with_sessions (peers (f k)))"]) simp
      next
        case (Cons h hs')
        with CleanIdle show ?thesis by (intro exI [of _ "RefreshCleaned cc h hs'"]) simp
      qed
    next
      case (Scan hs js)
      show ?case
      proof (cases hs)
        case (Cons h hs')
        with Scan show ?thesis by (intro exI [of _ "RefreshScanned cc h hs' js"]) simp
      next
        case Nil
        show ?thesis
        proof (cases js)
          case Nil
          with \<open>hs = []\<close> Scan show ?thesis
            by (intro exI [of _ "RefreshDone cc (if cc then list_peers (peers (f k)) else [])"]) simp
        next
          case (Cons j js')
          with \<open>hs = []\<close> Scan show ?thesis
            by (intro exI [of _ "RefreshJobFailed cc js (fst j) (snd j)"]) simp
        qed
      qed
    qed
    then show "\<exists>e s'. refresh_step e \<and> daemon_step (f k) e s'" by (auto simp: daemon_step_iff)
  qed
qed

text \<open>A run in which a refresh is done after one more step and a connection goes on.\<close>

theorem refreshes_terminate_witness:
  "\<exists>f ev. (\<forall>i. daemon_step (f i) (ev i) (f (Suc i)))
    \<and> (\<exists>N. \<forall>i \<ge> N. \<not> refresh_step (ev i)) \<and> (\<exists>e s'. refresh_step e \<and> daemon_step (f 0) e s')"
proof -
  let ?idle = "one_host ''b'' (linked {7} 0) {#Conn ''b'' 0#} 1"
  let ?busy = "one_host ''b'' (linked {7} 0) {#Refresh True (Scan [] []), Conn ''b'' 0#} 1"
  let ?f = "\<lambda>i::nat. if i = 0 then ?busy else ?idle"
  let ?ev = "\<lambda>i::nat. if i = 0 then RefreshDone True (list_peers (peers ?idle)) else Forwarded ''b'' 0"
  have "daemon_step ?busy (RefreshDone True (list_peers (peers ?idle))) ?idle"
    by (simp add: daemon_step_iff evaluate_steps)
  moreover have "daemon_step ?idle (Forwarded ''b'' 0) ?idle" by (simp add: daemon_step_iff)
  ultimately have steps: "daemon_step (?f i) (?ev i) (?f (Suc i))" for i by simp
  from refreshes_terminate [of ?f ?ev 0 True "Scan [] []" 0, OF steps] steps show ?thesis
    by (intro exI [of _ ?f] exI [of _ ?ev]) auto
qed

end
