(* ===== verification/Pid_Watcher.thy ===== *)
theory Pid_Watcher
  imports Rust_Str
begin

text \<open>
  \<open>watch_pid\<close> of \<^verbatim>\<open>src/src/pid_watcher.rs\<close>: the wait for the exit of an SSH process, by a pidfd or, when
  none can be had, by looking for \<^verbatim>\<open>/proc/<pid>\<close> every half second. The kernel's answers are
  parameters; a watch that never ends is the value \<open>None\<close>.
\<close>

section \<open>The watcher\<close>







section \<open>When it ends\<close>





end
