(* ===== verification/Spec2Isabelle.thy ===== *)
theory Spec2Isabelle
  imports Cli Run_Daemon Discovery Mesh Endpoints_Properties Fanout_Properties Receivers Refresh_Termination Pid_Watcher
begin

text \<open>
  A verification of \<^bold>\<open>tassh\<close>, a clipboard relay: a daemon on each machine watches the local
  clipboard for images and sends them, over a framed TCP connection, to the daemons of the machines
  that the user has SSH sessions to, which put them on their clipboards. All source files named
  here are under \<^verbatim>\<open>src/src/\<close>.

  \<^bold>\<open>The parts and the theories.\<close>

  \<^item> \<^verbatim>\<open>protocol.rs\<close>, the wire format: \<open>Protocol\<close>. \<open>Frame\<close>, \<open>to_bytes\<close> and \<open>from_bytes\<close> are the
    functions of the same names; bytes and lengths are machine words of the source's widths.
  \<^item> \<^verbatim>\<open>transport.rs\<close> and the receive loop of \<open>run_tcp_server\<close> in \<^verbatim>\<open>daemon.rs\<close>: \<open>Transport\<close>
    (\<open>send_frame\<close>, \<open>recv_frame\<close>, \<open>conn_loop\<close>) and \<open>Endpoints\<close> (\<open>server\<close> and the reconnecting
    \<open>client\<close>).
  \<^item> The clipboard bus (\<open>PeerRegistry::new\<close> in \<^verbatim>\<open>peer.rs\<close>, the bridge of \<open>run_daemon\<close> and the connection
    tasks of \<open>start_peer_connection\<close> in \<^verbatim>\<open>daemon.rs\<close>): \<open>Forward\<close> is the loop of a connection task,
    \<open>Bus\<close> the broadcast channel and the socket as interfaces, \<open>Fanout\<close> the whole system: the core of
    \<open>Daemon\<close> with the watcher's channel, the bus and the receiver of every connection, whose steps
    \<open>system_next\<close> interleave in any way; \<open>Fanout_Properties\<close> what it guarantees.
  \<^item> \<^verbatim>\<open>ipc.rs\<close>: \<open>Ipc\<close>, the messages of the Unix socket.
  \<^item> \<^verbatim>\<open>peer.rs\<close>: \<open>Peer\<close>, the registry of peers. The \<open>HashMap\<close> is an association list without
    repeated keys (\<open>wf_registry\<close>); where its iteration order matters, a step takes any permutation.
  \<^item> \<^verbatim>\<open>daemon.rs\<close>: \<open>Handlers\<close> holds one function per critical section on the registry, \<open>Daemon\<close> the
    tasks that run them. A daemon state is the registry, the multiset of tasks waiting somewhere and
    the next close channel; \<open>daemon_step\<close> is one critical section of one task with the local code
    up to its next wait, and the event on the step says what the task waited for. The executor may
    interleave the tasks in any way, and the properties hold for every interleaving. \<open>enabled\<close> and
    \<open>fire\<close> compute the relation (\<open>daemon_step_iff\<close>). \<open>Ssh_Hosts\<close> is the parsing of SSH command lines
    and host names; \<open>Process_List\<close> holds, independently of the code, the command lines of \<^verbatim>\<open>ssh(1)\<close> and
    the text of a list of processes; \<open>Discovery\<close> is the scan at startup with the tasks it starts;
    \<open>Ip_Addr\<close> is the reverse lookup of an address and \<open>Inbound_Keys\<close> the registry key of an inbound connection.
    \<open>Startup\<close> is the start of \<open>run_daemon\<close> and one IPC connection, \<open>Run_Daemon\<close> the life of
    a started daemon (the main loop beside the monitor of its display, which may end the process, and
    the cleanup) as a step relation \<open>life_step\<close>, its services, the TCP server and the reconciler's ticks.
  \<^item> \<^verbatim>\<open>pid_watcher.rs\<close>: \<open>Pid_Watcher\<close>, the wait for a process by pidfd or by polling.
  \<^item> \<^verbatim>\<open>clipboard.rs\<close>: \<open>Clipboard\<close>, both watchers and the writer with the processes it leaves running;
    \<open>Selection\<close>, which clipboard a command acts on and which process serves it; \<open>Receivers\<close>, the writers
    of several inbound connections, which share the clipboard of one display.
  \<^item> \<^verbatim>\<open>display.rs\<close>: \<open>Display\<close>, detection, lock cleanup and publication as functions of the files and
    the environment, and the monitor with the shutdown as a step relation \<open>sup_step\<close>.
  \<^item> \<^verbatim>\<open>setup.rs\<close>: \<open>Setup\<close>, the installer as a change of the user's files.
  \<^item> \<^verbatim>\<open>main.rs\<close>, \<^verbatim>\<open>cli.rs\<close>: \<open>Cli\<close>, the socket clients, the status lines and the exit codes.
  \<^item> \<open>Tassh_Prelude\<close> holds the shared types, lemma collections and list lemmas; \<open>Rust_Str\<close> the string
    functions of Rust's standard library that are used, on UTF-8 bytes, with slicing out of place as
    a panic; \<open>Utf8\<close> says which byte strings are UTF-8, and decodes others with replacement characters.

  \<^bold>\<open>How the parts interact.\<close> \<open>Cli\<close> sends IPC lines, \<open>Startup\<close> turns them into events of \<open>Daemon\<close>;
  the steps of \<open>Daemon\<close> are the handlers on the registry of \<open>Peer\<close>; keys and process ids come from
  \<open>Ssh_Hosts\<close>. Frames go from the watcher of \<open>Clipboard\<close> through \<open>Protocol\<close> and \<open>Transport\<close> to the
  writer of \<open>Clipboard\<close> on the other side, which \<open>Relay\<close> puts together for one stream and \<open>Fanout\<close> for
  the daemon with all its connections. \<open>Display\<close> gives the daemon the display its watcher and
  writers use. \<open>Discovery\<close> follows the sessions of a process list into the registry; \<open>Mesh\<close> connects any number of
  machines, each with the displays that \<open>Startup\<close> gives it: its writers use the Xvfb, its watcher
  the desktop if there is one, so that only machines without a desktop pass images on. The keys of inbound
  connections come from the names that \<open>Ip_Addr\<close> looks up, through \<open>Ssh_Hosts\<close>. A \<open>Watching\<close> task of \<open>Daemon\<close> ends when \<open>watch_pid\<close> returns.

  \<^bold>\<open>The interfaces.\<close> The locale \<open>frame_codec\<close> (a prefix-free codec with its length in the header) is
  interpreted on \<open>to_bytes\<close> and \<open>from_bytes\<close> as \<open>wire\<close>; \<open>host_store\<close> (a store of per-host states) on
  the registry as \<open>reg\<close>; \<open>exact_reader\<close> (tokio's documented \<open>read_exact\<close>) on a stream that arrives
  in chunks as \<open>chunked\<close>; \<open>broadcast_bus\<close> (tokio's documented channel of sixteen frames) on a log with
  positions as \<open>log_bus\<close>; \<open>byte_sink\<close> (a socket that appends, or fails after a part) on sockets that
  keep everything and that break, as \<open>kept\<close> and \<open>breaking\<close>; \<open>fanout\<close> extends the last two to the
  system; \<open>change_watcher\<close> (a polling loop that sends changes) on both watching
  loops as \<open>by_command\<close> and \<open>by_arboard\<close>.

  \<^bold>\<open>What the lemmas show.\<close> Wire: parsing inverts serialising, exactly; every parse error is
  characterised; the receive loop computes the reference reading of any byte stream, however it is
  cut. Daemon: an invariant over all reachable states gives the accounting of sessions and inbound
  connections and the ownership of connections; the registry refines a specification of the
  session sets; connection attempts cannot get stuck, idle hosts drain, and each tick of the reconciler leaves every host
  with sessions connected or being connected, unless something goes wrong for it; liveness refreshes
  terminate in every run; three runs show where the code fails. Bus:
  every frame reaches the bus once and in order, a connection takes a subsequence and accounts for the
  rest, and once it has caught up, which takes seventeen turns at most, the other machine holds the
  latest image. Client and server: frames arrive in order and at most once, an initial part of what each connection
  took, and no frame but the one in flight is missing where all that the socket accepted arrived. A
  mesh of machines: one copied image reaches every machine behind a chain of machines without a desktop
  in a bounded number of steps and comes to rest under every schedule; two images copied at the same
  time on such machines do not; a machine with a desktop passes nothing on. Startup: the sessions of the
  listed processes are counted exactly, less those that have exited, whatever else the daemon does
  meanwhile, as long as no IPC message arrives. Names: normal forms, destinations behind the options
  of \<^verbatim>\<open>ssh(1)\<close>, with the exceptions found, the exact result of the scan, and one key for inbound
  connections from the spellings of a host. Clipboard: exactly the changes are sent, one holder is
  kept, and the shared clipboard shows the last image that could be written, whichever connection it
  came on; \<open>Relay\<close> carries the last image from one clipboard to the other. Start and end: the daemon
  serves until a signal or until the monitor gives up on Xvfb and ends the process, which files are
  removed and published, the backoff, and the shutdown that the monitor blocks. The watch of an SSH
  process: when it ends. Setup: a second run changes
  nothing.

  \<^bold>\<open>Parameters and hypotheses.\<close> Sockets, subprocesses, the resolver, \<open>getnameinfo\<close>, the kernel's
  process descriptors, tokio's channels, the hash, the PNG encoder, the JSON library, the text of addresses, the
  order of hash maps, the file system's answers and the user are arguments of the definitions. The only hypotheses about
  them are the laws of \<open>exact_reader\<close>, \<open>broadcast_bus\<close> and \<open>byte_sink\<close>, a hash that tells the images at
  hand apart, an address whose text reads back, a JSON library that reads back the reply in
  question, process lists of printable arguments without white space, clipboard tools that start where
  a written image is claimed to be shown, and, for the shared clipboard, that only the daemon writes
  to it and no started tool refuses its input; each property with one has a concrete instance as its
  witness. \<open>Selection\<close> states what the display servers document: a clipboard has one owner, the program
  that took it over last, and is empty when that is gone.

  \<^bold>\<open>Bounds.\<close> No fuel is used: \<open>conn_loop\<close> and \<open>poll_proc\<close> are partial functions, and when they return
  is part of what is proved; the other loops are structural, have a measure or run over the
  finite list of what the outside did so far. The channels hold sixteen frames, as in the source.

  \<^bold>\<open>Reductions.\<close> Setting a flag and spawning the task that it announces is one step, as no other
  task can see the state in between through the registry's lock. Saturating subtraction on counters
  is that of natural numbers; counters of \<open>usize\<close> are not bounded above. Frames forwarded by a
  connection task do not change the registry, so a \<open>Forwarded\<close> step changes nothing; in \<open>Fanout\<close> the
  turn that sends the frame is that step. A clipboard write is one step of \<open>Receivers\<close>: the steps in it
  touch the writer's own child only. The senders of the bus live as long as the registry, which
  every connection task holds, so that the bus is not closed under a connection. In \<open>Mesh\<close> the links are
  queues of frames that keep the order, and the connections stay up; each inbound connection has its own
  writer, and the clipboards of a machine's displays are those of \<open>Selection\<close>. In \<open>Run_Daemon\<close> an
  accepted connection is recorded with the line it brings; what it does is \<open>handle_ipc_connection\<close>.

  \<^bold>\<open>Not modelled.\<close> Keepalive options, logging and printed prompts; the random jitter of the client;
  the time limits of probes and connects, which are outcomes, and so how long a refresh takes; the text of addresses and JSON,
  which belong to libraries; the test modules.
\<close>

end
